theory Spec2Isabelle
  imports Main "HOL-Library.Sublist" "HOL-Library.AList" "HOL-Library.Char_ord"
    "HOL-Library.List_Lexorder"
begin

section \<open>Exceptions\<close>

text \<open>
  Every exception the driver raises is a value.  The classes are those of the source
  (\<open>error.ConfigError\<close>, \<open>error.InitError\<close>, \<open>error.SDKError\<close>) and the
  built-in ones that escape uncaught; the argument records which \<open>raise\<close> statement
  produced it, in place of the formatted message.
\<close>

datatype config_failure =
    InvalidKey string
  | LockedVariable string
  | ParseFailure
  | NotDictionary
  | Immutable

datatype init_failure =
    WindowsHost
  | AlreadyInitialized
  | NoPython
  | ComponentsNotIterable
  | InstallFailed
  | NoSdkDirectory
  | TarFailure string string

datatype sdk_failure =
    NoInstallation
  | NoInterpreter
  | BadCommand
  | CommandFailed string

datatype error =
    ConfigError config_failure
  | InitError init_failure
  | SDKError sdk_failure
  | ValueError
  | KeyError string
  | IOError
  | OSError
  | TypeError
  | TimeoutExpired
  | TarError
  | ShutilError
  | AttributeError

section \<open>constants.py\<close>

definition RELEASE_TAR :: string where
  "RELEASE_TAR = ''https://dl.google.com/dl/cloudsdk/channels/rapid/google-cloud-sdk.tar.gz''"

definition DRIVER_LOCATION_ENV :: string where
  "DRIVER_LOCATION_ENV = ''CLOUDSDK_DRIVER_LOCATION''"

definition DRIVER_KEEP_LOCATION_ENV :: string where
  "DRIVER_KEEP_LOCATION_ENV = ''CLOUDSDK_DRIVER_KEEP_LOCATION''"

definition SNAPSHOT_ENV :: string where
  "SNAPSHOT_ENV = ''CLOUDSDK_COMPONENT_MANAGER_SNAPSHOT_URL''"

definition PYTHON_ENV :: string where
  "PYTHON_ENV = ''CLOUDSDK_PYTHON''"

definition CONFIG_ENV :: string where
  "CONFIG_ENV = ''CLOUDSDK_CONFIG''"

definition PYTHON_PATH :: string where
  "PYTHON_PATH = ''PYTHONPATH''"

definition COMPONENTS_FILE :: string where
  "COMPONENTS_FILE = ''components-2.json''"

definition INSTALLER_FILE :: string where
  "INSTALLER_FILE = ''google-cloud-sdk.tar.gz''"

definition SDK_FOLDER :: string where
  "SDK_FOLDER = ''google-cloud-sdk''"

definition REPO_FOLDER :: string where
  "REPO_FOLDER = ''repo''"

definition DOWNLOAD_FOLDER :: string where
  "DOWNLOAD_FOLDER = ''downloads''"

definition BIN_FOLDER :: string where
  "BIN_FOLDER = ''bin''"

definition LOCKED_ENVIRONMENT_VARIABLES :: "string list" where
  "LOCKED_ENVIRONMENT_VARIABLES = [CONFIG_ENV, DRIVER_LOCATION_ENV]"

section \<open>Strings and POSIX paths\<close>

text \<open>\<open>sep.join(xs)\<close> of Python.\<close>

fun str_join :: "string \<Rightarrow> string list \<Rightarrow> string" where
  "str_join sep [] = []"
| "str_join sep [x] = x"
| "str_join sep (x # y # ys) = x @ sep @ str_join sep (y # ys)"

text \<open>\<open>os.pathsep\<close> and \<open>os.path\<close> are the POSIX ones: \<open>Init\<close> refuses Windows.\<close>

definition pathsep :: string where
  "pathsep = '':''"

definition slash :: char where
  "slash = CHR ''/''"

text \<open>\<open>posixpath.join(a, b)\<close>.\<close>

definition path_join :: "string \<Rightarrow> string \<Rightarrow> string" where
  "path_join a b =
     (if b \<noteq> [] \<and> hd b = slash then b
      else if a = [] \<or> last a = slash then a @ b
      else a @ [slash] @ b)"

text \<open>\<open>posixpath.basename(p)\<close>: what follows the last slash.\<close>

definition basename :: "string \<Rightarrow> string" where
  "basename p = rev (takeWhile (\<lambda>c. c \<noteq> slash) (rev p))"

text \<open>\<open>posixpath.dirname(p)\<close>: the text up to the last slash, its trailing slashes
  stripped unless it consists of slashes only.\<close>

definition dirname :: "string \<Rightarrow> string" where
  "dirname p =
     (let head = rev (dropWhile (\<lambda>c. c \<noteq> slash) (rev p)) in
      if head \<noteq> [] \<and> \<not> list_all (\<lambda>c. c = slash) head
      then rev (dropWhile (\<lambda>c. c = slash) (rev head))
      else head)"

text \<open>Python's truth value of an optional string: \<open>None\<close> and \<open>''\<close> are false.\<close>

fun truthy :: "string option \<Rightarrow> bool" where
  "truthy None = False"
| "truthy (Some s) = (s \<noteq> [])"

section \<open>The file system\<close>

text \<open>
  A directory tree: a file with its content, or a directory with its entries by name
  (the first entry of a name is the one in force, as \<open>map_of\<close> reads it).  The whole
  file system is the node of the root; an absolute path lives under its entry \<open>/\<close>, a
  relative one directly under it (the working directory never changes).  Symbolic links
  and \<open>..\<close> are not modelled.
\<close>

datatype node = File string | Dir "(string \<times> node) list"

type_synonym loc = "string list"

text \<open>\<open>p.split('/')\<close>.\<close>

fun splitc :: "string \<Rightarrow> string list" where
  "splitc [] = [[]]"
| "splitc (c # cs) =
     (if c = slash then [] # splitc cs
      else (case splitc cs of [] \<Rightarrow> [[c]] | w # ws \<Rightarrow> (c # w) # ws))"

text \<open>The place a path string names: its components, empty ones and \<open>.\<close> dropped.\<close>

definition locate :: "string \<Rightarrow> loc" where
  "locate p =
     (if p \<noteq> [] \<and> hd p = slash then [[slash]] else [])
     @ filter (\<lambda>c. c \<noteq> [] \<and> c \<noteq> ''.'') (splitc p)"

primrec lookup :: "loc \<Rightarrow> node \<Rightarrow> node option" where
  "lookup [] n = Some n"
| "lookup (c # cs) n =
     (case n of
        File _ \<Rightarrow> None
      | Dir es \<Rightarrow> (case map_of es c of None \<Rightarrow> None | Some m \<Rightarrow> lookup cs m))"

text \<open>Removing the subtree at a place.\<close>

primrec del_at :: "loc \<Rightarrow> node \<Rightarrow> node" where
  "del_at [] n = Dir []"
| "del_at (c # cs) n =
     (case n of
        File x \<Rightarrow> File x
      | Dir es \<Rightarrow>
          (if cs = [] then Dir (AList.delete c es)
           else (case map_of es c of
                   None \<Rightarrow> Dir es
                 | Some m \<Rightarrow> Dir (AList.update c (del_at cs m) es))))"

text \<open>Placing a subtree at a place whose parent is a directory.\<close>

primrec put_at :: "loc \<Rightarrow> node \<Rightarrow> node \<Rightarrow> node option" where
  "put_at [] new n = None"
| "put_at (c # cs) new n =
     (case n of
        File _ \<Rightarrow> None
      | Dir es \<Rightarrow>
          (if cs = [] then Some (Dir (AList.update c new es))
           else (case map_of es c of
                   None \<Rightarrow> None
                 | Some m \<Rightarrow>
                     (case put_at cs new m of
                        None \<Rightarrow> None
                      | Some m' \<Rightarrow> Some (Dir (AList.update c m' es))))))"

text \<open>Creating the directories along a place; a file in the way makes it fail.\<close>

primrec mkdirs_at :: "loc \<Rightarrow> node \<Rightarrow> node option" where
  "mkdirs_at [] n = (case n of File _ \<Rightarrow> None | Dir _ \<Rightarrow> Some n)"
| "mkdirs_at (c # cs) n =
     (case n of
        File _ \<Rightarrow> None
      | Dir es \<Rightarrow>
          (case mkdirs_at cs (case map_of es c of None \<Rightarrow> Dir [] | Some m \<Rightarrow> m) of
             None \<Rightarrow> None
           | Some m' \<Rightarrow> Some (Dir (AList.update c m' es))))"

text \<open>A name as a directory holds it: not empty, not \<open>.\<close>, and without a slash.\<close>

definition valid_name :: "string \<Rightarrow> bool" where
  "valid_name n = (n \<noteq> [] \<and> n \<noteq> ''.'' \<and> slash \<notin> set n)"

text \<open>
  \<open>os.stat\<close>: the empty path names nothing, and a path with a trailing slash names
  a directory only.
\<close>

definition stat :: "node \<Rightarrow> string \<Rightarrow> node option" where
  "stat t p =
     (if p = [] then None
      else case lookup (locate p) t of
             Some (File c) \<Rightarrow> if last p = slash then None else Some (File c)
           | r \<Rightarrow> r)"

definition path_exists :: "node \<Rightarrow> string \<Rightarrow> bool" where
  "path_exists t p = (stat t p \<noteq> None)"

definition isdir :: "node \<Rightarrow> string \<Rightarrow> bool" where
  "isdir t p = (case stat t p of Some (Dir _) \<Rightarrow> True | _ \<Rightarrow> False)"

definition isfile :: "node \<Rightarrow> string \<Rightarrow> bool" where
  "isfile t p = (case stat t p of Some (File _) \<Rightarrow> True | _ \<Rightarrow> False)"

text \<open>\<open>os.listdir\<close>: the names in a directory, each once, in the order the directory
  holds them.\<close>

definition listdir :: "node \<Rightarrow> string \<Rightarrow> error + string list" where
  "listdir t p =
     (case stat t p of Some (Dir es) \<Rightarrow> Inr (remdups (map fst es)) | _ \<Rightarrow> Inl OSError)"

text \<open>\<open>os.makedirs\<close> raises \<open>OSError\<close> when the path exists or a file is in the way.\<close>

definition makedirs :: "node \<Rightarrow> string \<Rightarrow> error + node" where
  "makedirs t p =
     (if p = [] \<or> path_exists t p then Inl OSError
      else case mkdirs_at (locate p) t of None \<Rightarrow> Inl OSError | Some t' \<Rightarrow> Inr t')"

text \<open>\<open>open(p, 'wb')\<close> followed by writing the whole content.\<close>

definition write_file :: "node \<Rightarrow> string \<Rightarrow> string \<Rightarrow> error + node" where
  "write_file t p body =
     (if p = [] \<or> last p = slash then Inl IOError
      else case lookup (locate p) t of
             Some (Dir _) \<Rightarrow> Inl IOError
           | _ \<Rightarrow> (case put_at (locate p) (File body) t of
                     None \<Rightarrow> Inl IOError
                   | Some t' \<Rightarrow> Inr t'))"

text \<open>\<open>shutil.rmtree\<close> of a directory.\<close>

definition rmtree :: "node \<Rightarrow> string \<Rightarrow> node" where
  "rmtree t p = del_at (locate p) t"

text \<open>
  \<open>shutil.move(src, dst)\<close>: into \<open>dst\<close> when that is a directory, under the base name
  of \<open>src\<close>, refusing a name that exists there (\<open>shutil.Error\<close>); a source that does
  not exist ends in \<open>IOError\<close>.
\<close>

definition shutil_move :: "node \<Rightarrow> string \<Rightarrow> string \<Rightarrow> error + node" where
  "shutil_move t src dst =
     (let real_dst =
            (if isdir t dst
             then path_join dst (basename (rev (dropWhile (\<lambda>c. c = slash) (rev src))))
             else dst)
      in
      if isdir t dst \<and> path_exists t real_dst then Inl ShutilError
      else case stat t src of
             None \<Rightarrow> Inl IOError
           | Some n \<Rightarrow>
               (case put_at (locate real_dst) n (del_at (locate src) t) of
                  None \<Rightarrow> Inl IOError
                | Some t' \<Rightarrow> Inr t'))"

subsection \<open>Archives\<close>

text \<open>The members of a tar archive: regular files with their content, and directories.\<close>

datatype member = MFile string string | MDir string

fun member_name :: "member \<Rightarrow> string" where
  "member_name (MFile name _) = name"
| "member_name (MDir name) = name"

fun member_isfile :: "member \<Rightarrow> bool" where
  "member_isfile (MFile _ _) = True"
| "member_isfile (MDir _) = False"

text \<open>\<open>TarFile.extract(member, path)\<close>: missing parent directories are created, a file
  is written, a directory is made unless something of that name exists.\<close>

definition ensure_parent :: "node \<Rightarrow> string \<Rightarrow> error + node" where
  "ensure_parent t target =
     (let upperdirs = dirname target in
      if upperdirs \<noteq> [] \<and> \<not> path_exists t upperdirs then makedirs t upperdirs else Inr t)"

fun tar_extract :: "node \<Rightarrow> string \<Rightarrow> member \<Rightarrow> error + node" where
  "tar_extract t directory (MFile name body) =
     (let target = path_join directory name in
      case ensure_parent t target of
        Inl e \<Rightarrow> Inl e
      | Inr t1 \<Rightarrow> write_file t1 target body)"
| "tar_extract t directory (MDir name) =
     (let target = path_join directory name in
      case ensure_parent t target of
        Inl e \<Rightarrow> Inl e
      | Inr t1 \<Rightarrow> if path_exists t1 target then Inr t1 else makedirs t1 target)"

section \<open>The process environment and the host\<close>

type_synonym env = "string \<rightharpoonup> string"

text \<open>What a child process did: it exited with its output, it could not be started
  (\<open>OSError\<close> from \<open>Popen\<close>), or \<open>communicate\<close> ran into the timeout.\<close>

datatype proc_result =
    Exited string string int
  | SpawnFailed
  | TimedOut

text \<open>
  What the driver takes from the platform and from libraries outside the repository:
  \<open>os.name == 'nt'\<close>, \<open>sys.executable\<close>, \<open>sys.path\<close>, whether \<open>communicate\<close> takes a
  timeout, the directory \<open>tempfile.mkdtemp()\<close> makes, \<open>urllib2.urlopen\<close> (the body, or
  \<open>None\<close> for \<open>URLError\<close>), \<open>tarfile\<close>'s reading of a file's content (\<open>None\<close> for
  \<open>TarError\<close>), the scheme and the path \<open>urlparse\<close> finds in a location,
  \<open>urlparse.urljoin\<close>, \<open>shlex.split(s, comments=True)\<close> (\<open>None\<close> for \<open>ValueError\<close>),
  and \<open>subprocess.Popen\<close> with \<open>communicate\<close>: the child gets the argument vector, the
  working directory, the environment and the timeout, and may change the file system.
\<close>

record host =
  is_windows :: bool
  sys_executable :: "string option"
  sys_path :: "string list"
  timeout_enabled :: bool
  tmpdir :: string
  urlopen :: "string \<Rightarrow> string option"
  untar :: "string \<Rightarrow> member list option"
  url_scheme :: "string \<Rightarrow> string"
  url_path :: "string \<Rightarrow> string"
  urljoin :: "string \<Rightarrow> string \<Rightarrow> string"
  shlex_split :: "string \<Rightarrow> string list option"
  popen :: "string list \<Rightarrow> string \<Rightarrow> env \<Rightarrow> nat option \<Rightarrow> node \<Rightarrow> proc_result \<times> node"

text \<open>The state the driver changes: \<open>os.environ\<close>, the file system, and the locations
  fetched with \<open>urlopen\<close>, in order.\<close>

record state =
  os_environ :: env
  fs :: node
  fetched :: "string list"

section \<open>_sdk_tar.py\<close>

text \<open>
  Modelled from the spec: \<open>error.RaiseTarError(action, location, reason)\<close> is not among
  the sources.  The spec has a failed transfer or extraction surface as a distinguished
  error carrying the failing location, and the docstrings of \<open>DownloadTar\<close> and
  \<open>UnpackTar\<close> name its class, \<open>error.InitError\<close>.
\<close>

definition RaiseTarError :: "string \<Rightarrow> string \<Rightarrow> error" where
  "RaiseTarError action location = InitError (TarFailure action location)"

text \<open>
  \<open>DownloadTar(tar_location, download_directory)\<close>.  Every call of \<open>urlopen\<close> is
  recorded in \<open>fetched\<close>.  An \<open>IOError\<close> from \<open>open\<close> is not caught by the source.
\<close>

definition DownloadTar ::
  "host \<Rightarrow> string \<Rightarrow> string \<Rightarrow> state \<Rightarrow> (error + string) \<times> state" where
  "DownloadTar h tar_location download_directory s =
     (if url_scheme h tar_location \<noteq> [] then
        let download_directory = path_join download_directory DOWNLOAD_FOLDER in
        case (if \<not> path_exists (fs s) download_directory
              then makedirs (fs s) download_directory else Inr (fs s)) of
          Inl e \<Rightarrow> (Inl e, s)
        | Inr t1 \<Rightarrow>
            let s1 = s\<lparr>fs := t1\<rparr>;
                tar_name = basename (url_path h tar_location);
                download_path = path_join download_directory tar_name
            in
            if \<not> isfile t1 download_path then
              let s2 = s1\<lparr>fetched := fetched s1 @ [tar_location]\<rparr> in
              case urlopen h tar_location of
                None \<Rightarrow> (Inl (RaiseTarError ''downloading'' tar_location), s2)
              | Some body \<Rightarrow>
                  (case write_file t1 download_path body of
                     Inl e \<Rightarrow> (Inl e, s2)
                   | Inr t2 \<Rightarrow> (Inr download_path, s2\<lparr>fs := t2\<rparr>))
            else (Inr download_path, s1)
      else if \<not> isfile (fs s) tar_location then (Inl ValueError, s)
      else (Inr tar_location, s))"

text \<open>\<open>ExtractWithoutOverwrite(tar, directory)\<close>, over the members of the open archive.
  A failure keeps what was extracted before it.\<close>

fun ExtractWithoutOverwrite :: "member list \<Rightarrow> string \<Rightarrow> node \<Rightarrow> error option \<times> node" where
  "ExtractWithoutOverwrite [] directory t = (None, t)"
| "ExtractWithoutOverwrite (m # ms) directory t =
     (if member_isfile m \<and> isfile t (path_join directory (member_name m))
      then ExtractWithoutOverwrite ms directory t
      else case tar_extract t directory m of
             Inl e \<Rightarrow> (Some e, t)
           | Inr t' \<Rightarrow> ExtractWithoutOverwrite ms directory t')"

text \<open>
  \<open>with tarfile.open(name=...) as tar: ExtractWithoutOverwrite(tar, directory)\<close> inside
  \<open>try ... except tarfile.TarError\<close>, which turns a \<open>TarError\<close> into
  \<open>RaiseTarError('extracting', download_path, ...)\<close>.  A missing file is an \<open>IOError\<close>
  and passes through.
\<close>

definition extract_archive ::
  "host \<Rightarrow> string \<Rightarrow> string \<Rightarrow> string \<Rightarrow> node \<Rightarrow> error option \<times> node" where
  "extract_archive h download_path name directory t =
     (case stat t name of
        Some (File body) \<Rightarrow>
          (case untar h body of
             None \<Rightarrow> (Some (RaiseTarError ''extracting'' download_path), t)
           | Some ms \<Rightarrow> ExtractWithoutOverwrite ms directory t)
      | _ \<Rightarrow> (Some IOError, t))"

text \<open>The first part of \<open>UnpackTar\<close>: the staging directory \<open>repo\<close> is made when
  missing, and the archive is extracted into it.\<close>

definition UnpackTar_stage ::
  "host \<Rightarrow> string \<Rightarrow> string \<Rightarrow> state \<Rightarrow> error option \<times> state" where
  "UnpackTar_stage h download_path root_directory s =
     (let repo_directory = path_join root_directory REPO_FOLDER in
      case (if \<not> path_exists (fs s) repo_directory
            then makedirs (fs s) repo_directory else Inr (fs s)) of
        Inl e \<Rightarrow> (Some e, s)
      | Inr t0 \<Rightarrow>
          (case extract_archive h download_path download_path repo_directory t0 of
             (r, t1) \<Rightarrow> (r, s\<lparr>fs := t1\<rparr>)))"

text \<open>The loop that moves what is in \<open>repo\<close> up into the root directory.\<close>

fun move_up :: "string \<Rightarrow> string \<Rightarrow> string list \<Rightarrow> node \<Rightarrow> error option \<times> node" where
  "move_up repo_directory root_directory [] t = (None, t)"
| "move_up repo_directory root_directory (filename # rest) t =
     (if \<not> path_exists t (path_join root_directory filename)
      then case shutil_move t (path_join repo_directory filename) root_directory of
             Inl e \<Rightarrow> (Some e, t)
           | Inr t' \<Rightarrow> move_up repo_directory root_directory rest t'
      else move_up repo_directory root_directory rest t)"

text \<open>\<open>except (OSError, shutil.Error)\<close> around the loop.\<close>

fun move_error :: "string \<Rightarrow> error \<Rightarrow> error" where
  "move_error download_path OSError = RaiseTarError ''extracting'' download_path"
| "move_error download_path ShutilError = RaiseTarError ''extracting'' download_path"
| "move_error download_path e = e"

text \<open>The second part of \<open>UnpackTar\<close>, from the test for the components file on.\<close>

definition UnpackTar_shape ::
  "host \<Rightarrow> string \<Rightarrow> string \<Rightarrow> string \<Rightarrow> state \<Rightarrow> (error + string option) \<times> state" where
  "UnpackTar_shape h download_path tar_location root_directory s =
     (let repo_directory = path_join root_directory REPO_FOLDER;
          components_json = path_join repo_directory COMPONENTS_FILE
      in
      if isfile (fs s) components_json then
        let snapshot_url = ''file://'' @ components_json in
        case extract_archive h download_path (path_join repo_directory INSTALLER_FILE)
               root_directory (fs s) of
          (Some e, t) \<Rightarrow> (Inl e, s\<lparr>fs := t\<rparr>)
        | (None, t) \<Rightarrow> (Inr (Some snapshot_url), s\<lparr>fs := t\<rparr>)
      else
        let snapshot_url =
              (if url_scheme h tar_location = [] then
                 let components_json = path_join (dirname tar_location) COMPONENTS_FILE in
                 if isfile (fs s) components_json
                 then Some (urljoin h ''file://'' components_json) else None
               else None)
        in
        case listdir (fs s) repo_directory of
          Inl e \<Rightarrow> (Inl (move_error download_path e), s)
        | Inr names \<Rightarrow>
            (case move_up repo_directory root_directory names (fs s) of
               (Some e, t) \<Rightarrow> (Inl (move_error download_path e), s\<lparr>fs := t\<rparr>)
             | (None, t) \<Rightarrow> (Inr snapshot_url, s\<lparr>fs := t\<rparr>)))"

text \<open>\<open>UnpackTar(download_path, tar_location, root_directory)\<close>.\<close>

definition UnpackTar ::
  "host \<Rightarrow> string \<Rightarrow> string \<Rightarrow> string \<Rightarrow> state \<Rightarrow> (error + string option) \<times> state" where
  "UnpackTar h download_path tar_location root_directory s =
     (case UnpackTar_stage h download_path root_directory s of
        (Some e, s1) \<Rightarrow> (Inl e, s1)
      | (None, s1) \<Rightarrow> UnpackTar_shape h download_path tar_location root_directory s1)"

section \<open>_config.py: configurations\<close>

text \<open>
  Python values: a configuration value is \<open>None\<close>, a string, or a mapping from strings
  to strings.  \<open>dval\<close> is a value as it reads, mappings written out; \<open>pyval\<close> is a value
  as an attribute holds it, a mapping being a reference to a dictionary object.  A
  dictionary is its items in some order, each key once; a character is a code point
  below 256.
\<close>

datatype dval = DNone | DStr string | DMap "(string \<times> string) list"

datatype pyval = PNone | PStr string | PRef nat

text \<open>The objects: the \<open>__dict__\<close> of each configuration object, the dictionary
  objects that attributes refer to, and the next unused address.\<close>

record store =
  attrs :: "nat \<Rightarrow> (string \<times> pyval) list option"
  mappings :: "nat \<Rightarrow> (string \<times> string) list option"
  next_id :: nat

definition DEFAULT_CONFIG :: "(string \<times> dval) list" where
  "DEFAULT_CONFIG =
     [(''environment_variables'', DMap [(''CLOUDSDK_CORE_DISABLE_PROMPTS'', ''1'')]),
      (''service_account_email'', DNone),
      (''service_account_keyfile'', DNone),
      (''project'', DNone),
      (''properties'', DMap [])]"

text \<open>Reading a value, and a whole object, through the references.\<close>

definition read_val :: "store \<Rightarrow> pyval \<Rightarrow> dval" where
  "read_val st v =
     (case v of
        PNone \<Rightarrow> DNone
      | PStr s \<Rightarrow> DStr s
      | PRef a \<Rightarrow> DMap (case mappings st a of None \<Rightarrow> [] | Some m \<Rightarrow> m))"

definition the_dict :: "store \<Rightarrow> nat \<Rightarrow> (string \<times> pyval) list" where
  "the_dict st self = (case attrs st self of None \<Rightarrow> [] | Some d \<Rightarrow> d)"

definition snapshot :: "store \<Rightarrow> nat \<Rightarrow> (string \<times> dval) list" where
  "snapshot st self = map (\<lambda>(k, v). (k, read_val st v)) (the_dict st self)"

text \<open>The dictionary objects that the attributes of an object refer to.\<close>

definition refs :: "(string \<times> pyval) list \<Rightarrow> nat set" where
  "refs d = {a. PRef a \<in> snd ` set d}"

text \<open>\<open>copy.deepcopy\<close>: every mapping becomes a new dictionary object.\<close>

fun materialize :: "dval \<Rightarrow> store \<Rightarrow> pyval \<times> store" where
  "materialize DNone st = (PNone, st)"
| "materialize (DStr s) st = (PStr s, st)"
| "materialize (DMap m) st =
     (PRef (next_id st),
      st\<lparr>mappings := (mappings st)(next_id st \<mapsto> m), next_id := Suc (next_id st)\<rparr>)"

fun deepcopy :: "(string \<times> dval) list \<Rightarrow> store \<Rightarrow> (string \<times> pyval) list \<times> store" where
  "deepcopy [] st = ([], st)"
| "deepcopy ((k, v) # kvs) st =
     (case materialize v st of
        (v', st1) \<Rightarrow> (case deepcopy kvs st1 of (kvs', st2) \<Rightarrow> ((k, v') # kvs', st2)))"

text \<open>\<open>d.update(other)\<close>.\<close>

definition dict_update :: "('k \<times> 'v) list \<Rightarrow> ('k \<times> 'v) list \<Rightarrow> ('k \<times> 'v) list" where
  "dict_update d other = fold (\<lambda>(k, v). AList.update k v) other d"

text \<open>
  Modelled from the spec: \<open>error.RaiseInvalidKey(key)\<close> is not among the sources.  The
  spec has every overlay step reject a key that is not in the default key set, raising
  immediately, and the unit tests expect \<open>error.ConfigError\<close>.
\<close>

definition RaiseInvalidKey :: "string \<Rightarrow> error" where
  "RaiseInvalidKey key = ConfigError (InvalidKey key)"

text \<open>
  Modelled from the spec: \<open>error.ValidateLockedEnvironmentVariables(dictionary)\<close> is
  not among the sources.  The spec has it fail with a configuration error if any key in
  the fixed list of locked names appears in the candidate environment map; the callers
  pass the whole configuration dictionary, whose \<open>environment_variables\<close> value is that
  map.  The unit tests expect \<open>error.ConfigError\<close> naming the variable.
\<close>

definition ValidateLockedEnvironmentVariables :: "(string \<times> dval) list \<Rightarrow> error option" where
  "ValidateLockedEnvironmentVariables dictionary =
     (case map_of dictionary ''environment_variables'' of
        Some (DMap m) \<Rightarrow>
          (case find (\<lambda>var. var \<in> set (map fst m)) LOCKED_ENVIRONMENT_VARIABLES of
             Some var \<Rightarrow> Some (ConfigError (LockedVariable var))
           | None \<Rightarrow> None)
      | _ \<Rightarrow> None)"

text \<open>
  \<open>BaseConfig._UpdateDict(self, dictionary)\<close>.  The dictionary is given as it reads
  when the call is made; its deep copy is what the object's \<open>__dict__\<close> is updated with.
\<close>

definition UpdateDict ::
  "nat \<Rightarrow> (string \<times> dval) list \<Rightarrow> store \<Rightarrow> (error + unit) \<times> store" where
  "UpdateDict self dictionary st =
     (case find (\<lambda>key. key \<notin> set (map fst DEFAULT_CONFIG)) (map fst dictionary) of
        Some key \<Rightarrow> (Inl (RaiseInvalidKey key), st)
      | None \<Rightarrow>
          (case deepcopy dictionary st of
             (copy, st1) \<Rightarrow>
               (Inr (),
                st1\<lparr>attrs := (attrs st1)(self \<mapsto> dict_update (the_dict st1 self) copy)\<rparr>)))"

text \<open>A new object, with an empty \<open>__dict__\<close>.\<close>

definition new_object :: "store \<Rightarrow> nat \<times> store" where
  "new_object st =
     (next_id st, st\<lparr>attrs := (attrs st)(next_id st \<mapsto> []), next_id := Suc (next_id st)\<rparr>)"

subsection \<open>Config (driver.py)\<close>

text \<open>What opening the YAML file and \<open>yaml.load\<close> give: the file cannot be opened,
  \<open>yaml.load\<close> raises, the top level is not a dictionary, or it is one.\<close>

datatype yaml_file = Unreadable | Unparsable | NotADict | Document "(string \<times> dval) list"

text \<open>
  \<open>Config.LoadFile(filename)\<close>.  The handler around \<open>yaml.load\<close> names
  \<open>yaml.parser.ParseError\<close>.  The module \<open>yaml.parser\<close> has no attribute of that name
  (its exception class is \<open>ParserError\<close>), so when \<open>yaml.load\<close> raises, looking the
  handler's class up raises \<open>AttributeError\<close>, and that is the exception that leaves
  \<open>LoadFile\<close>; the \<open>raise error.ConfigError\<close> of the handler is never reached.
\<close>

definition LoadFile :: "nat \<Rightarrow> yaml_file \<Rightarrow> store \<Rightarrow> (error + unit) \<times> store" where
  "LoadFile self file st =
     (case file of
        Unreadable \<Rightarrow> (Inl IOError, st)
      | Unparsable \<Rightarrow> (Inl AttributeError, st)
      | NotADict \<Rightarrow> (Inl (ConfigError NotDictionary), st)
      | Document config \<Rightarrow>
          (case ValidateLockedEnvironmentVariables config of
             Some e \<Rightarrow> (Inl e, st)
           | None \<Rightarrow> UpdateDict self config st))"

text \<open>\<open>Config.__init__\<close> up to the last statement: the defaults, then the file, then the
  keyword arguments.\<close>

definition Config_overlays ::
  "yaml_file option \<Rightarrow> (string \<times> dval) list \<Rightarrow> store \<Rightarrow> (error + nat) \<times> store" where
  "Config_overlays filename kwargs st =
     (case new_object st of
        (self, st0) \<Rightarrow>
          (case UpdateDict self DEFAULT_CONFIG st0 of
             (Inl e, st1) \<Rightarrow> (Inl e, st1)
           | (Inr u, st1) \<Rightarrow>
               (case (case filename of
                        None \<Rightarrow> (Inr (), st1)
                      | Some file \<Rightarrow> LoadFile self file st1) of
                  (Inl e, st2) \<Rightarrow> (Inl e, st2)
                | (Inr u, st2) \<Rightarrow>
                    (case UpdateDict self kwargs st2 of
                       (Inl e, st3) \<Rightarrow> (Inl e, st3)
                     | (Inr u, st3) \<Rightarrow> (Inr self, st3)))))"

text \<open>\<open>Config.__init__(filename, **kwargs)\<close>: the overlays, then the check for locked
  variables on the object's \<open>__dict__\<close>.\<close>

definition Config_init ::
  "yaml_file option \<Rightarrow> (string \<times> dval) list \<Rightarrow> store \<Rightarrow> (error + nat) \<times> store" where
  "Config_init filename kwargs st =
     (case Config_overlays filename kwargs st of
        (Inl e, st') \<Rightarrow> (Inl e, st')
      | (Inr self, st') \<Rightarrow>
          (case ValidateLockedEnvironmentVariables (snapshot st' self) of
             Some e \<Rightarrow> (Inl e, st')
           | None \<Rightarrow> (Inr self, st')))"

text \<open>
  The words of the specification about a construction.  The dictionary that results from the
  overlays: the defaults, updated with the dictionary of the file when one is loaded,
  updated with the keyword arguments.  A configuration dictionary holds a locked name
  when its \<open>environment_variables\<close> value is a mapping with a locked name among its
  keys.  The keys are valid when each is a key of \<open>DEFAULT_CONFIG\<close>.
\<close>

definition file_dict :: "(string \<times> dval) list option \<Rightarrow> (string \<times> dval) list" where
  "file_dict file = (case file of None \<Rightarrow> [] | Some config \<Rightarrow> config)"

definition resulting_dict ::
  "(string \<times> dval) list option \<Rightarrow> (string \<times> dval) list \<Rightarrow> (string \<times> dval) list" where
  "resulting_dict file kwargs =
     dict_update (dict_update (dict_update [] DEFAULT_CONFIG) (file_dict file)) kwargs"

definition holds_locked :: "(string \<times> dval) list \<Rightarrow> bool" where
  "holds_locked d =
     (case map_of d ''environment_variables'' of
        Some (DMap m) \<Rightarrow> (\<exists>var\<in>set LOCKED_ENVIRONMENT_VARIABLES. var \<in> fst ` set m)
      | _ \<Rightarrow> False)"

definition valid_keys :: "(string \<times> dval) list \<Rightarrow> bool" where
  "valid_keys d = (\<forall>key\<in>fst ` set d. key \<in> fst ` set DEFAULT_CONFIG)"

text \<open>
  \<open>Config.__setattr__(name, value)\<close> and \<open>Config.__setitem__(key, value)\<close>, for a value
  the caller has just made; the attribute holds the caller's object itself.
\<close>

definition Config_setattr :: "nat \<Rightarrow> string \<Rightarrow> dval \<Rightarrow> store \<Rightarrow> (error + unit) \<times> store" where
  "Config_setattr self name val st =
     (if name \<notin> set (map fst (the_dict st self)) then (Inl (RaiseInvalidKey name), st)
      else case materialize val st of
             (v, st1) \<Rightarrow>
               (Inr (),
                st1\<lparr>attrs := (attrs st1)(self \<mapsto> AList.update name v (the_dict st1 self))\<rparr>))"

text \<open>\<open>config.field[key] = val\<close> and \<open>del config.field[key]\<close> on a mapping the
  configuration holds: the dictionary object itself is changed.\<close>

definition Config_setentry ::
  "nat \<Rightarrow> string \<Rightarrow> string \<Rightarrow> string \<Rightarrow> store \<Rightarrow> (error + unit) \<times> store" where
  "Config_setentry self field key val st =
     (case map_of (the_dict st self) field of
        None \<Rightarrow> (Inl (KeyError field), st)
      | Some (PRef a) \<Rightarrow>
          (Inr (),
           st\<lparr>mappings :=
                (mappings st)(a \<mapsto> AList.update key val
                                      (case mappings st a of None \<Rightarrow> [] | Some m \<Rightarrow> m))\<rparr>)
      | Some _ \<Rightarrow> (Inl TypeError, st))"

definition Config_delentry ::
  "nat \<Rightarrow> string \<Rightarrow> string \<Rightarrow> store \<Rightarrow> (error + unit) \<times> store" where
  "Config_delentry self field key st =
     (case map_of (the_dict st self) field of
        None \<Rightarrow> (Inl (KeyError field), st)
      | Some (PRef a) \<Rightarrow>
          (let m = (case mappings st a of None \<Rightarrow> [] | Some m \<Rightarrow> m) in
           if key \<notin> set (map fst m) then (Inl (KeyError key), st)
           else (Inr (), st\<lparr>mappings := (mappings st)(a \<mapsto> AList.delete key m)\<rparr>))
      | Some _ \<Rightarrow> (Inl TypeError, st))"

text \<open>The ways a caller can change a \<open>Config\<close>: assign an attribute, change or delete
  an entry of one of its mappings, load a file.\<close>

datatype mutation =
    Assign string dval
  | SetEntry string string string
  | DelEntry string string
  | Load yaml_file

fun mutate :: "nat \<Rightarrow> mutation \<Rightarrow> store \<Rightarrow> (error + unit) \<times> store" where
  "mutate self (Assign name val) st = Config_setattr self name val st"
| "mutate self (SetEntry field key val) st = Config_setentry self field key val st"
| "mutate self (DelEntry field key) st = Config_delentry self field key st"
| "mutate self (Load file) st = LoadFile self file st"

text \<open>A sequence of such statements; one that raises leaves the later ones to run, as
  when the caller catches the exception.\<close>

fun mutations :: "nat \<Rightarrow> mutation list \<Rightarrow> store \<Rightarrow> store" where
  "mutations self [] st = st"
| "mutations self (m # ms) st = mutations self ms (snd (mutate self m st))"

subsection \<open>ImmutableConfig\<close>

text \<open>\<open>ImmutableConfig.__init__(config)\<close>: a new object updated with \<open>config.__dict__\<close>.\<close>

definition ImmutableConfig_init :: "nat \<Rightarrow> store \<Rightarrow> (error + nat) \<times> store" where
  "ImmutableConfig_init config st =
     (case new_object st of
        (self, st0) \<Rightarrow>
          (case UpdateDict self (snapshot st0 config) st0 of
             (Inl e, st1) \<Rightarrow> (Inl e, st1)
           | (Inr u, st1) \<Rightarrow> (Inr self, st1)))"

text \<open>\<open>ImmutableConfig.__setattr__\<close> and \<open>__setitem__\<close>.\<close>

definition ImmutableConfig_setattr ::
  "nat \<Rightarrow> string \<Rightarrow> dval \<Rightarrow> store \<Rightarrow> (error + unit) \<times> store" where
  "ImmutableConfig_setattr self name val st = (Inl (ConfigError Immutable), st)"

subsection \<open>The key of an ImmutableConfig\<close>

text \<open>
  \<open>json.dumps(d, sort_keys=True)\<close> for these values, as Python 2.7 writes it: a string
  between double quotes, with the quote, the backslash and the control characters
  escaped and every other character outside the printable ASCII range written
  \<open>\uXXXX\<close>; \<open>null\<close> for \<open>None\<close>; a dictionary as \<open>{"key": value, ...}\<close> with its items in
  the order of their keys.  A string is read as its code points, as for a \<open>unicode\<close>
  string and for a byte string within ASCII; a byte string with bytes above 127 would
  be decoded as UTF-8 first, which is not modelled.
\<close>

definition backslash :: char where
  "backslash = CHR 0x5C"

definition dquote :: char where
  "dquote = CHR 0x22"

definition hex_digit :: "nat \<Rightarrow> char" where
  "hex_digit n = ''0123456789abcdef'' ! n"

definition json_escape :: "char \<Rightarrow> string" where
  "json_escape c =
     (let n = (of_char c :: nat) in
      if n = 0x22 then [backslash, dquote]
      else if n = 0x5C then [backslash, backslash]
      else if n = 8 then [backslash, CHR ''b'']
      else if n = 12 then [backslash, CHR ''f'']
      else if n = 10 then [backslash, CHR ''n'']
      else if n = 13 then [backslash, CHR ''r'']
      else if n = 9 then [backslash, CHR ''t'']
      else if 32 \<le> n \<and> n \<le> 126 then [c]
      else [backslash, CHR ''u'', CHR ''0'', CHR ''0'',
            hex_digit (n div 16), hex_digit (n mod 16)])"

definition json_string :: "string \<Rightarrow> string" where
  "json_string s = dquote # concat (map json_escape s) @ [dquote]"

text \<open>A dictionary whose values are serialized already.\<close>

definition json_item :: "string \<times> string \<Rightarrow> string" where
  "json_item kj = json_string (fst kj) @ '': '' @ snd kj"

definition json_object :: "(string \<times> string) list \<Rightarrow> string" where
  "json_object items = ''{'' @ str_join '', '' (map json_item (sort_key fst items)) @ ''}''"

fun json_value :: "dval \<Rightarrow> string" where
  "json_value DNone = ''null''"
| "json_value (DStr s) = json_string s"
| "json_value (DMap m) = json_object (map (\<lambda>(k, v). (k, json_string v)) m)"

definition json_dumps :: "(string \<times> dval) list \<Rightarrow> string" where
  "json_dumps d = json_object (map (\<lambda>(k, v). (k, json_value v)) d)"

text \<open>\<open>ImmutableConfig._Key\<close>, \<open>__hash__\<close> and \<open>__eq__\<close>.  The MD5 digest read as a
  number is a parameter.  The other operand of \<open>==\<close> is an \<open>ImmutableConfig\<close> or some
  other object.\<close>

definition ImmutableConfig_Key :: "store \<Rightarrow> nat \<Rightarrow> string" where
  "ImmutableConfig_Key st self = json_dumps (snapshot st self)"

definition ImmutableConfig_hash :: "(string \<Rightarrow> nat) \<Rightarrow> store \<Rightarrow> nat \<Rightarrow> nat" where
  "ImmutableConfig_hash md5 st self = md5 (ImmutableConfig_Key st self)"

datatype pyobject = AnImmutableConfig nat | AnotherObject

definition ImmutableConfig_eq :: "store \<Rightarrow> nat \<Rightarrow> pyobject \<Rightarrow> bool" where
  "ImmutableConfig_eq st self other =
     (case other of
        AnImmutableConfig b \<Rightarrow> ImmutableConfig_Key st self = ImmutableConfig_Key st b
      | AnotherObject \<Rightarrow> False)"

subsection \<open>Dictionaries as Python compares them\<close>

text \<open>
  What a dictionary holds, whatever the order of its items: the set of its items, a
  mapping among the values being the set of its items in turn.  Two dictionaries are
  equal in Python when they hold the same.  A dictionary has each key once.
\<close>

definition dval_content :: "dval \<Rightarrow> dval + (string \<times> string) set" where
  "dval_content v = (case v of DMap m \<Rightarrow> Inr (set m) | _ \<Rightarrow> Inl v)"

definition dict_content :: "(string \<times> dval) list \<Rightarrow> (string \<times> (dval + (string \<times> string) set)) set" where
  "dict_content d = set (map (\<lambda>(k, v). (k, dval_content v)) d)"

definition dict_wellformed :: "(string \<times> dval) list \<Rightarrow> bool" where
  "dict_wellformed d =
     (distinct (map fst d)
      \<and> list_all (\<lambda>(k, v). case v of DMap m \<Rightarrow> distinct (map fst m) | _ \<Rightarrow> True) d)"

text \<open>The items of a serialized dictionary one after the other, up to the closing brace.\<close>

fun json_items :: "(string \<times> string) list \<Rightarrow> string" where
  "json_items [] = ''}''"
| "json_items [kj] = json_item kj @ ''}''"
| "json_items (kj # kj' # rest) = json_item kj @ '', '' @ json_items (kj' # rest)"

text \<open>The character a two-character escape stands for, by its second character; and a
  set of strings none of which can be continued into another: after one of them has
  been read, what follows is known.\<close>

definition short_escape :: "char \<Rightarrow> char" where
  "short_escape x =
     (if x = CHR ''b'' then CHR 0x08
      else if x = CHR ''f'' then CHR 0x0C
      else if x = CHR ''n'' then CHR 0x0A
      else if x = CHR ''r'' then CHR 0x0D
      else if x = CHR ''t'' then CHR 0x09
      else x)"

definition self_delimiting :: "string set \<Rightarrow> bool" where
  "self_delimiting V = (\<forall>x\<in>V. \<forall>y\<in>V. \<forall>r s. x @ r = y @ s \<longrightarrow> x = y \<and> r = s)"

section \<open>_config.py: PrepareEnviron\<close>

text \<open>
  \<open>PrepareEnviron(user_environ, config_name, sdk_dir)\<close>.  It reads \<open>os.environ\<close>
  (\<open>os_env\<close>), \<open>sys.executable\<close> and \<open>sys.path\<close>.  \<open>os.environ['PATH']\<close> raises
  \<open>KeyError\<close> when the host has no \<open>PATH\<close>; the source evaluates it on both branches.
  \<open>a in b\<close> on strings is the substring test.
\<close>

definition PrepareEnviron ::
  "host \<Rightarrow> env \<Rightarrow> env \<Rightarrow> string \<Rightarrow> string \<Rightarrow> error + env" where
  "PrepareEnviron h os_env user_environ config_name sdk_dir =
     (let environ = user_environ;
          bin_folder = path_join sdk_dir BIN_FOLDER;
          path_components =
            [bin_folder] @ (case environ ''PATH'' of None \<Rightarrow> [] | Some p \<Rightarrow> [p])
      in
      case os_env ''PATH'' of
        None \<Rightarrow> Inl (KeyError ''PATH'')
      | Some host_path \<Rightarrow>
          let path_components =
                (if environ ''PATH'' = None \<or> \<not> sublist host_path (the (environ ''PATH''))
                 then path_components @ [host_path] else path_components);
              environ = environ(''PATH'' \<mapsto> str_join pathsep path_components);
              environ = environ(CONFIG_ENV \<mapsto> path_join sdk_dir config_name)
          in
          if environ PYTHON_ENV = None \<and> \<not> truthy (sys_executable h)
          then Inl (SDKError NoInterpreter)
          else
            let environ =
                  (if environ PYTHON_ENV = None
                   then environ(PYTHON_ENV \<mapsto> the (sys_executable h)) else environ);
                environ =
                  (case environ PYTHON_PATH of
                     None \<Rightarrow> environ(PYTHON_PATH \<mapsto> str_join pathsep (sys_path h))
                   | Some pp \<Rightarrow> environ(PYTHON_PATH \<mapsto> str_join pathsep (pp # sys_path h)))
            in Inr environ)"

section \<open>driver.py: the installation\<close>

text \<open>The \<open>additional_components\<close> argument: \<open>None\<close>, a string, or a list or tuple of
  strings.\<close>

datatype components = NoComponents | ComponentString string | ComponentList "string list"

fun components_given :: "components \<Rightarrow> bool" where
  "components_given NoComponents = False"
| "components_given (ComponentString c) = (c \<noteq> [])"
| "components_given (ComponentList cs) = (cs \<noteq> [])"

fun components_args :: "components \<Rightarrow> string list" where
  "components_args (ComponentList cs) = cs"
| "components_args _ = []"

text \<open>
  Modelled from the spec: \<open>error.HandlePossibleError((out, err, code), cls, message)\<close>
  is not among the sources.  The spec has a non-zero exit abort with the given error,
  and the unit tests have status 123 raise and status 0 pass.
\<close>

definition HandlePossibleError :: "string \<times> string \<times> int \<Rightarrow> error \<Rightarrow> error option" where
  "HandlePossibleError result exc =
     (case result of (out, err, code) \<Rightarrow> if code \<noteq> 0 then Some exc else None)"

text \<open>
  \<open>Init\<close>, lines 212 to 219: the default archive and the root directory.
  \<open>tempfile.mkdtemp()\<close> makes the directory the host names; a root directory that is
  given but is not a directory is made; one that is a directory sets the keep marker.
\<close>

definition Init_locations ::
  "host \<Rightarrow> string option \<Rightarrow> string option \<Rightarrow> state \<Rightarrow> (error + string \<times> string) \<times> state" where
  "Init_locations h tar_location root_directory s =
     (let tar_location = (case tar_location of None \<Rightarrow> RELEASE_TAR | Some l \<Rightarrow> l) in
      case root_directory of
        None \<Rightarrow>
          (case makedirs (fs s) (tmpdir h) of
             Inl e \<Rightarrow> (Inl e, s)
           | Inr t \<Rightarrow> (Inr (tar_location, tmpdir h), s\<lparr>fs := t\<rparr>))
      | Some r \<Rightarrow>
          if \<not> isdir (fs s) r then
            (case makedirs (fs s) r of
               Inl e \<Rightarrow> (Inl e, s)
             | Inr t \<Rightarrow> (Inr (tar_location, r), s\<lparr>fs := t\<rparr>))
          else
            (Inr (tar_location, r),
             s\<lparr>os_environ := (os_environ s)(DRIVER_KEEP_LOCATION_ENV \<mapsto> ''True'')\<rparr>))"

text \<open>The environment of the installer: the snapshot URL when there is one, the
  interpreter when \<open>sys.executable\<close> is set, and \<open>os.environ\<close> over both.\<close>

definition installer_env :: "host \<Rightarrow> string option \<Rightarrow> env \<Rightarrow> env" where
  "installer_env h snapshot_url os_env =
     (let env0 = (if truthy snapshot_url
                  then Map.empty(SNAPSHOT_ENV \<mapsto> the snapshot_url) else Map.empty);
          env1 = (if truthy (sys_executable h)
                  then env0(PYTHON_ENV \<mapsto> the (sys_executable h)) else env0)
      in env1 ++ os_env)"

definition installer_command :: "string \<Rightarrow> components \<Rightarrow> string list" where
  "installer_command root_directory additional_components =
     [''./install.sh'',
      ''--disable-installation-options'',
      ''--bash-completion=false'',
      ''--path-update=false'',
      ''--usage-reporting=false'',
      ''--rc-path='' @ root_directory @ ''/.bashrc'']
     @ (if components_given additional_components
        then ''--additional-components'' # components_args additional_components
        else [])"

text \<open>The installer is run in the SDK directory; then the SDK directory must exist, and
  the driver location is published last.\<close>

definition run_installer ::
  "host \<Rightarrow> string list \<Rightarrow> env \<Rightarrow> string \<Rightarrow> state \<Rightarrow> (error + unit) \<times> state" where
  "run_installer h command env root_directory s =
     (let sdk_dir = path_join root_directory SDK_FOLDER in
      case popen h command sdk_dir env None (fs s) of
        (SpawnFailed, t) \<Rightarrow> (Inl OSError, s\<lparr>fs := t\<rparr>)
      | (TimedOut, t) \<Rightarrow> (Inl TimeoutExpired, s\<lparr>fs := t\<rparr>)
      | (Exited out err code, t) \<Rightarrow>
          (case HandlePossibleError (out, err, code) (InitError InstallFailed) of
             Some e \<Rightarrow> (Inl e, s\<lparr>fs := t\<rparr>)
           | None \<Rightarrow>
               (if \<not> isdir t sdk_dir then (Inl (InitError NoSdkDirectory), s\<lparr>fs := t\<rparr>)
                else (Inr (),
                      s\<lparr>fs := t,
                        os_environ := (os_environ s)(DRIVER_LOCATION_ENV \<mapsto> root_directory)\<rparr>))))"

text \<open>\<open>Init\<close>, lines 221 to 269: download, unpack, compose the environment and the
  command, run the installer.\<close>

definition Init_install ::
  "host \<Rightarrow> string \<Rightarrow> components \<Rightarrow> string \<Rightarrow> state \<Rightarrow> (error + unit) \<times> state" where
  "Init_install h tar_location additional_components root_directory s =
     (case DownloadTar h tar_location root_directory s of
        (Inl e, s1) \<Rightarrow> (Inl e, s1)
      | (Inr download_path, s1) \<Rightarrow>
          (case UnpackTar h download_path tar_location root_directory s1 of
             (Inl e, s2) \<Rightarrow> (Inl e, s2)
           | (Inr snapshot_url, s2) \<Rightarrow>
               (let env = installer_env h snapshot_url (os_environ s2) in
                if env PYTHON_ENV = None then (Inl (InitError NoPython), s2)
                else if components_given additional_components
                        \<and> (case additional_components of
                              ComponentString c \<Rightarrow> True | _ \<Rightarrow> False)
                then (Inl (InitError ComponentsNotIterable), s2)
                else run_installer h (installer_command root_directory additional_components)
                       env root_directory s2)))"

text \<open>\<open>Init(tar_location, additional_components, root_directory)\<close>.\<close>

definition Init ::
  "host \<Rightarrow> string option \<Rightarrow> components \<Rightarrow> string option \<Rightarrow> state \<Rightarrow> (error + unit) \<times> state" where
  "Init h tar_location additional_components root_directory s =
     (if is_windows h then (Inl (InitError WindowsHost), s)
      else if os_environ s DRIVER_LOCATION_ENV \<noteq> None
      then (Inl (InitError AlreadyInitialized), s)
      else case Init_locations h tar_location root_directory s of
             (Inl e, s1) \<Rightarrow> (Inl e, s1)
           | (Inr (tar_location, root_directory), s1) \<Rightarrow>
               Init_install h tar_location additional_components root_directory s1)"

text \<open>\<open>Destroy()\<close>.  \<open>not keep_location\<close> holds for \<open>None\<close> and for the empty string.\<close>

definition Destroy :: "state \<Rightarrow> state" where
  "Destroy s =
     (let root_directory = os_environ s DRIVER_LOCATION_ENV;
          keep_location = os_environ s DRIVER_KEEP_LOCATION_ENV;
          s1 = (case root_directory of
                  None \<Rightarrow> s
                | Some r \<Rightarrow>
                    let s' = (if isdir (fs s) r \<and> \<not> truthy keep_location
                              then s\<lparr>fs := rmtree (fs s) r\<rparr> else s)
                    in s'\<lparr>os_environ := (os_environ s')(DRIVER_LOCATION_ENV := None)\<rparr>)
      in
      case keep_location of
        None \<Rightarrow> s1
      | Some _ \<Rightarrow> s1\<lparr>os_environ := (os_environ s1)(DRIVER_KEEP_LOCATION_ENV := None)\<rparr>)"

section \<open>driver.py: running commands\<close>

text \<open>A command is a string, a list or tuple of strings, or something else.\<close>

datatype command = CmdString string | CmdList "string list" | CmdOther

text \<open>The fields of an \<open>SDK\<close> object that running a command reads.\<close>

record sdk =
  self_sdk_dir :: string
  self_config_name :: string
  self_env :: env

text \<open>\<open>_PrepareCommand(command)\<close>; on Windows every backslash is doubled first.\<close>

definition PrepareCommand :: "host \<Rightarrow> command \<Rightarrow> error + string list" where
  "PrepareCommand h command =
     (case command of
        CmdString c \<Rightarrow>
          (let c = (if is_windows h
                    then concat (map (\<lambda>x. if x = CHR 0x5C then [x, x] else [x]) c) else c)
           in case shlex_split h c of None \<Rightarrow> Inl ValueError | Some ws \<Rightarrow> Inr ws)
      | CmdList ws \<Rightarrow> Inr ws
      | CmdOther \<Rightarrow> Inl (SDKError BadCommand))"

text \<open>
  \<open>SDK.Run(command, timeout, env)\<close>.  \<open>dict(self._env, **env)\<close> is the base
  environment overridden by \<open>env\<close>, which for an empty \<open>env\<close> is the base environment,
  as on the other branch.  Without timeout support the timeout is not passed on.
\<close>

definition Run ::
  "host \<Rightarrow> sdk \<Rightarrow> command \<Rightarrow> nat option \<Rightarrow> env option \<Rightarrow> state
     \<Rightarrow> (error + string \<times> string \<times> int) \<times> state" where
  "Run h self command timeout env s =
     (let env = (case env of None \<Rightarrow> self_env self | Some e \<Rightarrow> self_env self ++ e) in
      case PrepareCommand h command of
        Inl e \<Rightarrow> (Inl e, s)
      | Inr argv \<Rightarrow>
          (case popen h argv (dirname (self_sdk_dir self)) env
                  (if timeout_enabled h then timeout else None) (fs s) of
             (Exited out err code, t) \<Rightarrow> (Inr (out, err, code), s\<lparr>fs := t\<rparr>)
           | (SpawnFailed, t) \<Rightarrow> (Inl OSError, s\<lparr>fs := t\<rparr>)
           | (TimedOut, t) \<Rightarrow> (Inl TimeoutExpired, s\<lparr>fs := t\<rparr>)))"

text \<open>\<open>SDK.RunGcloudRawOutput(command, formats, filters, timeout, env)\<close>.\<close>

definition RunGcloudRawOutput ::
  "host \<Rightarrow> sdk \<Rightarrow> command \<Rightarrow> string option \<Rightarrow> string option \<Rightarrow> nat option \<Rightarrow> env option
     \<Rightarrow> state \<Rightarrow> (error + string \<times> string \<times> int) \<times> state" where
  "RunGcloudRawOutput h self command formats filters timeout env s =
     (case PrepareCommand h command of
        Inl e \<Rightarrow> (Inl e, s)
      | Inr ws \<Rightarrow>
          let command = ''gcloud'' # ws;
              command = (if truthy formats
                         then command @ [''--format='' @ the formats] else command);
              command = (if truthy filters
                         then command @ [''--filter='' @ the filters] else command)
          in Run h self (CmdList command) timeout env s)"

text \<open>
  \<open>SDK.RunGcloud(command, format_keys, filters, timeout, env)\<close>.  \<open>json.loads\<close> is a
  parameter: \<open>None\<close> is its \<open>ValueError\<close>.  The first component of the result is
  \<open>None\<close>, the decoded value, or the raw output.
\<close>

datatype 'j gcloud_output = NoOutput | Decoded 'j | RawOutput string

definition json_format :: "string list \<Rightarrow> string" where
  "json_format format_keys =
     (if format_keys \<noteq> [] then ''json('' @ str_join '','' format_keys @ '')'' else ''json'')"

definition RunGcloud ::
  "(string \<Rightarrow> 'j option) \<Rightarrow> host \<Rightarrow> sdk \<Rightarrow> command \<Rightarrow> string list \<Rightarrow> string option
     \<Rightarrow> nat option \<Rightarrow> env option \<Rightarrow> state
     \<Rightarrow> (error + 'j gcloud_output \<times> string \<times> int) \<times> state" where
  "RunGcloud json_loads h self command format_keys filters timeout env s =
     (let formats = json_format format_keys in
      case RunGcloudRawOutput h self command (Some formats) filters timeout env s of
        (Inl e, s') \<Rightarrow> (Inl e, s')
      | (Inr (out, err, code), s') \<Rightarrow>
          if out \<noteq> [] then
            (case json_loads out of
               Some j \<Rightarrow> (Inr (Decoded j, err, code), s')
             | None \<Rightarrow> (Inr (RawOutput out, err, code), s'))
          else (Inr (NoOutput, err, code), s'))"

section \<open>urlparse\<close>

text \<open>
  The functions of the module \<open>urlparse\<close> of Python 2.7 that \<open>_sdk_tar.py\<close> calls,
  \<open>urlsplit\<close>, \<open>urlparse\<close> and \<open>urljoin\<close>, on byte strings and with
  \<open>allow_fragments\<close> left at its default.  They are what the concrete host below
  answers with; the functions of the driver take them from the host.
\<close>

definition scheme_chars :: string where
  "scheme_chars = ''abcdefghijklmnopqrstuvwxyzABCDEFGHIJKLMNOPQRSTUVWXYZ0123456789+-.''"

definition uses_relative :: "string list" where
  "uses_relative =
     [''ftp'', ''http'', ''gopher'', ''nntp'', ''imap'', ''wais'', ''file'', ''https'',
      ''shttp'', ''mms'', ''prospero'', ''rtsp'', ''rtspu'', '''', ''sftp'', ''svn'',
      ''svn+ssh'']"

definition uses_netloc :: "string list" where
  "uses_netloc =
     [''ftp'', ''http'', ''gopher'', ''nntp'', ''telnet'', ''imap'', ''wais'', ''file'',
      ''mms'', ''https'', ''shttp'', ''snews'', ''prospero'', ''rtsp'', ''rtspu'',
      ''rsync'', '''', ''svn'', ''svn+ssh'', ''sftp'', ''nfs'', ''git'', ''git+ssh'']"

definition uses_params :: "string list" where
  "uses_params =
     [''ftp'', ''hdl'', ''prospero'', ''http'', ''imap'', ''https'', ''shttp'', ''rtsp'',
      ''rtspu'', ''sip'', ''sips'', ''mms'', '''', ''sftp'', ''tel'']"

text \<open>\<open>s.find(c)\<close>, \<open>s.split(c, 1)\<close> for a \<open>c\<close> that occurs in \<open>s\<close>, and \<open>s.lower()\<close>.\<close>

definition str_find :: "char \<Rightarrow> string \<Rightarrow> nat option" where
  "str_find c s = (if c \<in> set s then Some (length (takeWhile (\<lambda>x. x \<noteq> c) s)) else None)"

definition split_once :: "char \<Rightarrow> string \<Rightarrow> string \<times> string" where
  "split_once c s = (takeWhile (\<lambda>x. x \<noteq> c) s, tl (dropWhile (\<lambda>x. x \<noteq> c) s))"

definition lower_char :: "char \<Rightarrow> char" where
  "lower_char c =
     (let n = (of_char c :: nat) in if 65 \<le> n \<and> n \<le> 90 then char_of (n + 32) else c)"

text \<open>\<open>_splitnetloc(url, 2)\<close>: the network location ends at the first of \<open>/\<close>, \<open>?\<close>
  and \<open>#\<close> after the two slashes.\<close>

definition splitnetloc :: "string \<Rightarrow> string \<times> string" where
  "splitnetloc url =
     (takeWhile (\<lambda>c. c \<notin> set ''/?#'') (drop 2 url),
      dropWhile (\<lambda>c. c \<notin> set ''/?#'') (drop 2 url))"

text \<open>
  The end of \<open>urlsplit\<close>, once the scheme is known: the network location, the
  fragment, the query.  \<open>None\<close> is the \<open>ValueError\<close> for a network location with one
  square bracket and not the other.  The result is the scheme, the network location,
  the path, the query and the fragment.
\<close>

definition urlsplit_rest ::
  "string \<Rightarrow> string \<Rightarrow> (string \<times> string \<times> string \<times> string \<times> string) option" where
  "urlsplit_rest scheme url =
     (case (if take 2 url = ''//'' then splitnetloc url else ([], url)) of
        (netloc, url1) \<Rightarrow>
          if (CHR ''['' \<in> set netloc \<and> CHR '']'' \<notin> set netloc)
             \<or> (CHR '']'' \<in> set netloc \<and> CHR ''['' \<notin> set netloc)
          then None
          else
            (case (if CHR ''#'' \<in> set url1 then split_once CHR ''#'' url1 else (url1, [])) of
               (url2, fragment) \<Rightarrow>
                 (case (if CHR ''?'' \<in> set url2 then split_once CHR ''?'' url2
                        else (url2, [])) of
                    (url3, query) \<Rightarrow> Some (scheme, netloc, url3, query, fragment))))"

text \<open>
  \<open>urlsplit(url, scheme)\<close>.  What is before the first colon is the scheme when it is
  \<open>http\<close>, or when it is made of scheme characters and what follows the colon is not
  a port number; else the scheme is the default that was passed.
\<close>

definition urlsplit ::
  "string \<Rightarrow> string \<Rightarrow> (string \<times> string \<times> string \<times> string \<times> string) option" where
  "urlsplit url scheme =
     (case str_find CHR '':'' url of
        None \<Rightarrow> urlsplit_rest scheme url
      | Some i \<Rightarrow>
          if 0 < i then
            (if take i url = ''http'' then urlsplit_rest ''http'' (drop (Suc i) url)
             else if list_all (\<lambda>c. c \<in> set scheme_chars) (take i url) then
               (let rest = drop (Suc i) url in
                if rest = [] \<or> list_ex (\<lambda>c. c \<notin> set ''0123456789'') rest
                then urlsplit_rest (map lower_char (take i url)) rest
                else urlsplit_rest scheme url)
             else urlsplit_rest scheme url)
          else urlsplit_rest scheme url)"

text \<open>\<open>_splitparams(url)\<close>, for a \<open>url\<close> with a semicolon: the parameters start at the
  first semicolon of the last segment of the path.\<close>

definition splitparams :: "string \<Rightarrow> string \<times> string" where
  "splitparams url =
     (if slash \<in> set url then
        (let head = rev (dropWhile (\<lambda>c. c \<noteq> slash) (rev url));
             last_segment = rev (takeWhile (\<lambda>c. c \<noteq> slash) (rev url))
         in if CHR '';'' \<in> set last_segment
            then (head @ fst (split_once CHR '';'' last_segment),
                  snd (split_once CHR '';'' last_segment))
            else (url, []))
      else split_once CHR '';'' url)"

text \<open>\<open>urlparse(url, scheme)\<close>: the scheme, the network location, the path, the
  parameters, the query and the fragment.\<close>

definition urlparse ::
  "string \<Rightarrow> string
     \<Rightarrow> (string \<times> string \<times> string \<times> string \<times> string \<times> string) option" where
  "urlparse url scheme =
     (case urlsplit url scheme of
        None \<Rightarrow> None
      | Some (scheme1, netloc, url1, query, fragment) \<Rightarrow>
          (case (if scheme1 \<in> set uses_params \<and> CHR '';'' \<in> set url1
                 then splitparams url1 else (url1, [])) of
             (url2, params) \<Rightarrow> Some (scheme1, netloc, url2, params, query, fragment)))"

text \<open>\<open>urlunsplit\<close> and \<open>urlunparse\<close>.\<close>

definition urlunsplit :: "string \<times> string \<times> string \<times> string \<times> string \<Rightarrow> string" where
  "urlunsplit parts =
     (case parts of
        (scheme, netloc, url, query, fragment) \<Rightarrow>
          (let url1 = (if netloc \<noteq> []
                          \<or> (scheme \<noteq> [] \<and> scheme \<in> set uses_netloc \<and> take 2 url \<noteq> ''//'')
                       then ''//'' @ netloc
                            @ (if url \<noteq> [] \<and> take 1 url \<noteq> ''/'' then slash # url else url)
                       else url);
               url2 = (if scheme \<noteq> [] then scheme @ '':'' @ url1 else url1);
               url3 = (if query \<noteq> [] then url2 @ ''?'' @ query else url2)
           in if fragment \<noteq> [] then url3 @ ''#'' @ fragment else url3))"

definition urlunparse ::
  "string \<times> string \<times> string \<times> string \<times> string \<times> string \<Rightarrow> string" where
  "urlunparse parts =
     (case parts of
        (scheme, netloc, url, params, query, fragment) \<Rightarrow>
          urlunsplit (scheme, netloc,
                      (if params \<noteq> [] then url @ '';'' @ params else url), query, fragment))"

text \<open>
  The loops of \<open>urljoin\<close> over the segments of the path.  The inner loop looks for the
  first \<open>..\<close> that is not the last segment and follows a segment other than the empty
  one and \<open>..\<close>, and deletes both; the outer loop runs until there is none.
\<close>

fun delete_parent :: "string list \<Rightarrow> string list option" where
  "delete_parent (a # b # c # rest) =
     (if b = ''..'' \<and> a \<noteq> [] \<and> a \<noteq> ''..'' then Some (c # rest)
      else map_option ((#) a) (delete_parent (b # c # rest)))"
| "delete_parent segments = None"

function delete_parents :: "string list \<Rightarrow> string list" where
  "delete_parents segments =
     (case delete_parent segments of
        None \<Rightarrow> segments
      | Some segments' \<Rightarrow> delete_parents segments')"
  by pat_completeness auto
termination
proof (relation "measure length")
  fix segments segments'
  assume "delete_parent segments = Some segments'"
  then have "length segments' < length segments"
    by (induction segments arbitrary: segments' rule: delete_parent.induct)
       (auto split: if_splits)
  then show "(segments', segments) \<in> measure length"
    by simp
qed simp

declare delete_parents.simps [simp del]

definition join_segments :: "string list \<Rightarrow> string list" where
  "join_segments segments =
     (let s1 = (if segments \<noteq> [] \<and> last segments = ''.'' then butlast segments @ [[]]
                else segments);
          s2 = filter (\<lambda>x. x \<noteq> ''.'') s1;
          s3 = delete_parents s2
      in if s3 = [[], ''..''] then [[], []]
         else if 2 \<le> length s3 \<and> last s3 = ''..'' then butlast (butlast s3) @ [[]]
         else s3)"

text \<open>\<open>urljoin(base, url)\<close>; \<open>None\<close> is the \<open>ValueError\<close> of \<open>urlparse\<close>.\<close>

definition py_urljoin :: "string \<Rightarrow> string \<Rightarrow> string option" where
  "py_urljoin base url =
     (if base = [] then Some url
      else if url = [] then Some base
      else case urlparse base [] of
        None \<Rightarrow> None
      | Some (bscheme, bnetloc, bpath, bparams, bquery, bfragment) \<Rightarrow>
          (case urlparse url bscheme of
             None \<Rightarrow> None
           | Some (scheme, netloc0, path, params, query, fragment) \<Rightarrow>
               if scheme \<noteq> bscheme \<or> scheme \<notin> set uses_relative then Some url
               else if scheme \<in> set uses_netloc \<and> netloc0 \<noteq> []
               then Some (urlunparse (scheme, netloc0, path, params, query, fragment))
               else
                 (let netloc = (if scheme \<in> set uses_netloc then bnetloc else netloc0) in
                  if take 1 path = ''/''
                  then Some (urlunparse (scheme, netloc, path, params, query, fragment))
                  else if path = [] \<and> params = []
                  then Some (urlunparse (scheme, netloc, bpath, bparams,
                               (if query = [] then bquery else query), fragment))
                  else Some (urlunparse
                               (scheme, netloc,
                                str_join ''/'' (join_segments (butlast (splitc bpath) @ splitc path)),
                                params, query, fragment)))))"
section \<open>A concrete host\<close>

text \<open>
  A POSIX host used to run the definitions on concrete inputs: its interpreter is
  \<open>/usr/bin/python\<close>, the scheme and the path of a location are those \<open>urlsplit\<close>
  finds and \<open>urljoin\<close> is the one above (a location on which they raise \<open>ValueError\<close>
  has no scheme and an empty path here, and joins to the empty string), the content of
  a file is read as an archive, a few fixed contents standing for its members, and a
  child process is started when its working directory is a directory, exits with
  status 0 and leaves the file system as it is.
\<close>

definition example_scheme :: "string \<Rightarrow> string" where
  "example_scheme u =
     (case urlsplit u [] of
        None \<Rightarrow> []
      | Some (scheme, netloc, path, query, fragment) \<Rightarrow> scheme)"

definition example_path :: "string \<Rightarrow> string" where
  "example_path u =
     (case urlsplit u [] of
        None \<Rightarrow> []
      | Some (scheme, netloc, path, query, fragment) \<Rightarrow> path)"

definition example_urljoin :: "string \<Rightarrow> string \<Rightarrow> string" where
  "example_urljoin base url = (case py_urljoin base url of None \<Rightarrow> [] | Some u \<Rightarrow> u)"

definition example_popen ::
  "proc_result \<Rightarrow> string list \<Rightarrow> string \<Rightarrow> env \<Rightarrow> nat option \<Rightarrow> node \<Rightarrow> proc_result \<times> node" where
  "example_popen r argv cwd e timeout t = (if isdir t cwd then (r, t) else (SpawnFailed, t))"

definition example_untar :: "string \<Rightarrow> member list option" where
  "example_untar body =
     (if body = ''installer'' then Some [MFile ''google-cloud-sdk/install.sh'' ''#!/bin/sh'']
      else if body = ''bundle''
      then Some [MFile ''google-cloud-sdk/install.sh'' ''#!/bin/sh'', MFile ''README'' ''new'']
      else if body = ''empty'' then Some []
      else None)"

definition example_host :: host where
  "example_host =
     \<lparr> is_windows = False,
       sys_executable = Some ''/usr/bin/python'',
       sys_path = [''lib''],
       timeout_enabled = True,
       tmpdir = ''/tmp/tmpsdk'',
       urlopen = (\<lambda>u. if u = ''http://host/sdk.tar'' then Some ''installer'' else None),
       untar = example_untar,
       url_scheme = example_scheme,
       url_path = example_path,
       urljoin = example_urljoin,
       shlex_split = (\<lambda>s. Some [s]),
       popen = example_popen (Exited [] [] 0) \<rparr>"

text \<open>A state with a local installer archive \<open>sdk.tar\<close> and a directory \<open>work\<close>.\<close>

definition example_state :: state where
  "example_state =
     \<lparr> os_environ = Map.empty(''PATH'' \<mapsto> ''/usr/bin''),
       fs = Dir [(''sdk.tar'', File ''installer''), (''work'', Dir [])],
       fetched = [] \<rparr>"

text \<open>An \<open>SDK\<close> object on that host, and a host whose child processes print text that
  is not JSON.\<close>

definition example_sdk :: sdk where
  "example_sdk =
     \<lparr> self_sdk_dir = ''work/google-cloud-sdk'',
       self_config_name = ''configxxxxxxxx'',
       self_env = Map.empty(''PATH'' \<mapsto> ''work/google-cloud-sdk/bin:/usr/bin'') \<rparr>"

definition chatty_host :: host where
  "chatty_host =
     example_host\<lparr> popen := example_popen (Exited ''Usage: gcloud'' ''warn'' 2) \<rparr>"

text \<open>A state with an installer archive \<open>bundle.tar\<close> in the working directory that
  also holds a \<open>README\<close>, a components file beside it, and a root directory \<open>work\<close>
  that has a \<open>README\<close> of its own.\<close>

definition bundle_state :: state where
  "bundle_state =
     \<lparr> os_environ = Map.empty(''PATH'' \<mapsto> ''/usr/bin''),
       fs = Dir [(''bundle.tar'', File ''bundle''),
                 (''components-2.json'', File ''{}''),
                 (''work'', Dir [(''README'', File ''mine'')])],
       fetched = [] \<rparr>"

text \<open>The store before any object is made.\<close>

definition empty_store :: store where
  "empty_store = \<lparr> attrs = (\<lambda>a. None), mappings = (\<lambda>a. None), next_id = 0 \<rparr>"

text \<open>
  A store with three \<open>ImmutableConfig\<close> objects, 0, 1 and 2.  The first two hold the
  same, with the items of the dictionary and of the \<open>properties\<close> mapping in different
  orders; the third differs from the first in one value of \<open>properties\<close>.
\<close>

definition reordered_store :: store where
  "reordered_store =
     \<lparr> attrs = (\<lambda>a. None)
         (0 \<mapsto> [(''environment_variables'', PRef 3), (''project'', PStr ''p''),
                 (''properties'', PRef 4)],
          1 \<mapsto> [(''properties'', PRef 5), (''environment_variables'', PRef 3),
                 (''project'', PStr ''p'')],
          2 \<mapsto> [(''environment_variables'', PRef 3), (''project'', PStr ''p''),
                 (''properties'', PRef 6)]),
       mappings = (\<lambda>a. None)
         (3 \<mapsto> [],
          4 \<mapsto> [(''core/account'', ''a''), (''compute/zone'', ''z'')],
          5 \<mapsto> [(''compute/zone'', ''z''), (''core/account'', ''a'')],
          6 \<mapsto> [(''core/account'', ''b''), (''compute/zone'', ''z'')]),
       next_id = 7 \<rparr>"

text \<open>
  The store after \<open>config = Config()\<close>, \<open>ImmutableConfig(config)\<close>,
  \<open>config.project = 'foo'\<close> and \<open>ImmutableConfig(config)\<close> again: the configuration
  is object 0 and the two frozen copies are objects 3 and 6.
\<close>

definition refrozen_store :: store where
  "refrozen_store =
     snd (ImmutableConfig_init 0
       (snd (Config_setattr 0 ''project'' (DStr ''foo'')
          (snd (ImmutableConfig_init 0 (snd (Config_init None [] empty_store)))))))"
section \<open>Facts about paths and the file system\<close>

subsection \<open>Path strings and places\<close>

lemma splitc_nonempty [simp]: "splitc s \<noteq> []"
  by (induction s) (auto split: list.splits)

lemma splitc_append_slash: "splitc (a @ slash # b) = splitc a @ splitc b"
  by (induction a) (auto split: list.splits)

lemma splitc_no_slash: "slash \<notin> set n \<Longrightarrow> splitc n = [n]"
  by (induction n) (auto split: list.splits)

lemma splitc_snoc_slash: "splitc (a @ [slash]) = splitc a @ [[]]"
  using splitc_append_slash [of a "[]"] by simp

lemma locate_join_any:
  assumes "slash \<notin> set n"
  shows "locate (path_join d n) = locate d @ filter (\<lambda>c. c \<noteq> [] \<and> c \<noteq> ''.'') [n]"
proof -
  from assms have hdn: "\<not> (n \<noteq> [] \<and> hd n = slash)" by (cases n) auto
  show ?thesis
  proof (cases "d = []")
    case True
    with assms hdn have "path_join d n = n" "locate d = []"
      by (auto simp: path_join_def locate_def)
    with assms hdn show ?thesis
      by (auto simp: locate_def splitc_no_slash)
  next
    case False
    then have hd_app: "\<And>x. hd (d @ x) = hd d" by simp
    show ?thesis
    proof (cases "last d = slash")
      case True
      with False obtain d' where d: "d = d' @ [slash]"
        by (metis append_butlast_last_id)
      from hdn True have pj: "path_join d n = d @ n" by (auto simp: path_join_def)
      have "splitc (d @ n) = splitc d' @ [n]"
        using splitc_append_slash [of d' n] assms by (simp add: d splitc_no_slash)
      moreover have "splitc d = splitc d' @ [[]]"
        by (simp add: d splitc_snoc_slash)
      ultimately show ?thesis
        using False hd_app by (simp add: pj locate_def)
    next
      case nl: False
      from hdn nl False have pj: "path_join d n = d @ slash # n"
        by (auto simp: path_join_def)
      have "splitc (d @ slash # n) = splitc d @ [n]"
        using splitc_append_slash [of d n] assms by (simp add: splitc_no_slash)
      with False hd_app show ?thesis
        by (simp add: pj locate_def)
    qed
  qed
qed

lemma locate_join:
  assumes "valid_name n"
  shows "locate (path_join d n) = locate d @ [n]"
  using assms locate_join_any [of n d] by (simp add: valid_name_def)

lemma path_join_last:
  assumes "slash \<notin> set n" "n \<noteq> []"
  shows "path_join d n \<noteq> [] \<and> last (path_join d n) \<noteq> slash"
proof -
  from assms have "hd n \<noteq> slash" "last n \<noteq> slash"
    by (cases n, auto) (metis assms last_in_set)
  with assms show ?thesis by (simp add: path_join_def)
qed

lemma basename_append:
  assumes "slash \<notin> set n" "x = [] \<or> last x = slash"
  shows "basename (x @ n) = n"
proof -
  have all: "takeWhile (\<lambda>c. c \<noteq> slash) (rev n) = rev n"
    by (rule takeWhile_eq_all_conv [THEN iffD2]) (use assms in auto)
  show ?thesis
  proof (cases "x = []")
    case True
    then show ?thesis by (simp only: basename_def all rev_rev_ident append_Nil)
  next
    case False
    with assms obtain x' where x: "x = x' @ [slash]" by (metis append_butlast_last_id)
    have "takeWhile (\<lambda>c. c \<noteq> slash) (rev (x @ n)) = takeWhile (\<lambda>c. c \<noteq> slash) (rev n)"
      by (simp add: x takeWhile_tail)
    then show ?thesis by (simp only: basename_def all rev_rev_ident)
  qed
qed

lemma basename_join:
  assumes "slash \<notin> set n"
  shows "basename (path_join d n) = n"
proof -
  from assms have hdn: "\<not> (n \<noteq> [] \<and> hd n = slash)" by (cases n) auto
  show ?thesis
  proof (cases "d = [] \<or> last d = slash")
    case True
    with hdn have "path_join d n = d @ n" by (auto simp: path_join_def)
    with basename_append [OF assms True] show ?thesis by simp
  next
    case False
    with hdn have "path_join d n = (d @ [slash]) @ n" by (auto simp: path_join_def)
    with basename_append [OF assms, of "d @ [slash]"] show ?thesis by simp
  qed
qed

subsection \<open>Looking up after a change\<close>

lemma lookup_append:
  "lookup (p @ q) t = (case lookup p t of None \<Rightarrow> None | Some m \<Rightarrow> lookup q m)"
  by (induction p arbitrary: t) (auto split: node.splits option.splits)

lemma lookup_snoc_dir:
  assumes "lookup (p @ [c]) t \<noteq> None"
  shows "\<exists>es. lookup p t = Some (Dir es)"
proof -
  from assms obtain m where m: "lookup p t = Some m" "lookup [c] m \<noteq> None"
    by (auto simp: lookup_append split: option.splits)
  then show ?thesis by (cases m) auto
qed

lemma lookup_del_at_prefix:
  "p \<noteq> [] \<Longrightarrow> lookup (p @ q) (del_at p t) = None"
proof (induction p arbitrary: t)
  case Nil then show ?case by simp
next
  case (Cons c cs)
  show ?case
  proof (cases t)
    case (File x) then show ?thesis by simp
  next
    case (Dir es)
    show ?thesis
    proof (cases "cs = []")
      case True
      with Dir show ?thesis by (simp add: delete_conv')
    next
      case False
      with Dir Cons.IH show ?thesis
        by (auto simp: update_conv' split: option.splits)
    qed
  qed
qed

lemma lookup_del_at_other:
  "\<not> prefix p q \<Longrightarrow> \<not> prefix q p \<Longrightarrow> lookup q (del_at p t) = lookup q t"
proof (induction p arbitrary: t q)
  case Nil then show ?case by simp
next
  case (Cons c cs)
  from Cons.prems obtain d ds where q: "q = d # ds" by (cases q) auto
  show ?case
  proof (cases t)
    case (File x) then show ?thesis by simp
  next
    case (Dir es)
    show ?thesis
    proof (cases "cs = []")
      case True
      with Dir q Cons.prems show ?thesis by (auto simp: delete_conv')
    next
      case False
      show ?thesis
      proof (cases "d = c")
        case True
        with Cons.prems q have "\<not> prefix cs ds" "\<not> prefix ds cs" by auto
        with Dir q True False Cons.IH show ?thesis
          by (auto simp: update_conv' split: option.splits)
      next
        case False
        with Dir q show ?thesis
          by (auto simp: update_conv' split: option.splits)
      qed
    qed
  qed
qed

text \<open>A directory above the place stays a directory.\<close>

lemma lookup_del_at_above:
  "q \<noteq> [] \<Longrightarrow> lookup p t = Some (Dir es) \<Longrightarrow>
   \<exists>es'. lookup p (del_at (p @ q) t) = Some (Dir es')"
proof (induction p arbitrary: t)
  case Nil
  then show ?case
    by (cases q) (auto split: option.splits)
next
  case (Cons c cs)
  from Cons.prems(2) obtain fs m where t: "t = Dir fs" "map_of fs c = Some m"
    "lookup cs m = Some (Dir es)"
    by (cases t) (auto split: option.splits)
  from Cons.IH [OF Cons.prems(1) t(3)] obtain es' where
    "lookup cs (del_at (cs @ q) m) = Some (Dir es')" by blast
  with t Cons.prems(1) show ?case by (simp add: update_conv')
qed

lemma put_at_Cons:
  "put_at (c # cs) new (Dir es) = Some t' \<Longrightarrow> cs \<noteq> [] \<Longrightarrow>
   \<exists>m m'. map_of es c = Some m \<and> put_at cs new m = Some m' \<and> t' = Dir (AList.update c m' es)"
  by (auto split: option.splits)

lemma put_at_lookup_under:
  "put_at p new t = Some t' \<Longrightarrow> lookup (p @ q) t' = lookup q new"
proof (induction p arbitrary: t t')
  case Nil then show ?case by simp
next
  case (Cons c cs)
  from Cons.prems obtain es where t: "t = Dir es" by (cases t) auto
  show ?case
  proof (cases "cs = []")
    case True
    with Cons.prems t show ?thesis by (auto simp: update_conv')
  next
    case False
    from put_at_Cons [OF Cons.prems [unfolded t] False] obtain m m' where
      m: "map_of es c = Some m" "put_at cs new m = Some m'" "t' = Dir (AList.update c m' es)"
      by blast
    from Cons.IH [OF m(2)] m(3) show ?thesis by (simp add: update_conv')
  qed
qed

lemma put_at_lookup_other:
  "put_at p new t = Some t' \<Longrightarrow> \<not> prefix p q \<Longrightarrow> \<not> prefix q p \<Longrightarrow>
   lookup q t' = lookup q t"
proof (induction p arbitrary: t t' q)
  case Nil then show ?case by simp
next
  case (Cons c cs)
  from Cons.prems obtain d ds where q: "q = d # ds" by (cases q) auto
  from Cons.prems obtain es where t: "t = Dir es" by (cases t) auto
  show ?case
  proof (cases "cs = []")
    case True
    with Cons.prems t q show ?thesis by (auto simp: update_conv')
  next
    case False
    from put_at_Cons [OF Cons.prems(1) [unfolded t] False] obtain m m' where
      m: "map_of es c = Some m" "put_at cs new m = Some m'" "t' = Dir (AList.update c m' es)"
      by blast
    show ?thesis
    proof (cases "d = c")
      case True
      with Cons.prems q have "\<not> prefix cs ds" "\<not> prefix ds cs" by auto
      from Cons.IH [OF m(2) this] m(1,3) t q True show ?thesis
        by (simp add: update_conv')
    next
      case False
      with m(3) t q show ?thesis by (simp add: update_conv')
    qed
  qed
qed

text \<open>Placing succeeds below a directory, and the directory stays one.\<close>

lemma put_at_below_dir:
  "lookup p t = Some (Dir es) \<Longrightarrow>
   \<exists>t' es'. put_at (p @ [c]) new t = Some t' \<and> lookup p t' = Some (Dir es')"
proof (induction p arbitrary: t)
  case Nil
  then show ?case by simp
next
  case (Cons d ds)
  from Cons.prems obtain fs m where t: "t = Dir fs" "map_of fs d = Some m"
    "lookup ds m = Some (Dir es)"
    by (cases t) (auto split: option.splits)
  from Cons.IH [OF t(3)] obtain m' es' where
    "put_at (ds @ [c]) new m = Some m'" "lookup ds m' = Some (Dir es')" by blast
  with t show ?case by (simp add: update_conv')
qed


lemma mkdirs_at_fresh:
  "mkdirs_at p t = Some t' \<Longrightarrow> lookup p t = None \<Longrightarrow> lookup p t' = Some (Dir [])"
proof (induction p arbitrary: t t')
  case Nil
  then show ?case by simp
next
  case (Cons c cs)
  from Cons.prems(1) obtain es where t: "t = Dir es" by (cases t) auto
  let ?sub = "case map_of es c of None \<Rightarrow> Dir [] | Some m \<Rightarrow> m"
  from Cons.prems(1) t obtain m' where m': "mkdirs_at cs ?sub = Some m'"
    "t' = Dir (AList.update c m' es)"
    by (auto split: option.splits)
  show ?case
  proof (cases "cs = []")
    case True
    with m' Cons.prems(2) t show ?thesis
      by (auto simp: update_conv' split: option.splits)
  next
    case False
    then have "lookup cs (Dir []) = None" by (cases cs) auto
    with Cons.prems(2) t have "lookup cs ?sub = None"
      by (auto split: option.splits)
    from Cons.IH [OF m'(1) this] m'(2) show ?thesis by (simp add: update_conv')
  qed
qed

subsection \<open>What \<open>os.path\<close> sees\<close>

lemma stat_join:
  assumes "valid_name n"
  shows "stat t (path_join d n) = lookup (locate d @ [n]) t"
proof -
  from assms path_join_last [of n d]
  have "path_join d n \<noteq> []" "last (path_join d n) \<noteq> slash"
    by (simp_all add: valid_name_def)
  with locate_join [OF assms, of d] show ?thesis
    by (auto simp: stat_def split: option.splits node.splits)
qed

lemma isdir_lookup:
  "isdir t d \<Longrightarrow> d \<noteq> [] \<and> (\<exists>es. lookup (locate d) t = Some (Dir es))"
  by (auto simp: isdir_def stat_def split: option.splits node.splits if_splits)

lemma lookup_isdir:
  "d \<noteq> [] \<Longrightarrow> lookup (locate d) t = Some (Dir es) \<Longrightarrow> isdir t d"
  by (simp add: isdir_def stat_def)

lemma write_file_isfile:
  assumes "write_file t p body = Inr t'"
  shows "isfile t' p"
proof -
  from assms have p: "p \<noteq> []" "last p \<noteq> slash"
    and put: "put_at (locate p) (File body) t = Some t'"
    by (auto simp: write_file_def split: if_splits option.splits node.splits)
  from put_at_lookup_under [OF put, of "[]"] have "lookup (locate p) t' = Some (File body)"
    by simp
  with p show ?thesis by (simp add: isfile_def stat_def)
qed

lemma makedirs_locate:
  assumes "makedirs t p = Inr t'"
  shows "p \<noteq> [] \<and> locate p \<noteq> []"
proof -
  from assms have p: "p \<noteq> []" "\<not> path_exists t p" and mk: "mkdirs_at (locate p) t \<noteq> None"
    by (auto simp: makedirs_def split: if_splits option.splits)
  have "locate p \<noteq> []"
  proof
    assume e: "locate p = []"
    with mk obtain es where "t = Dir es" by (cases t) auto
    with e p show False by (simp add: path_exists_def stat_def)
  qed
  with p show ?thesis by simp
qed

section \<open>Facts about the object store\<close>

lemma refs_Nil [simp]: "refs [] = {}"
  by (simp add: refs_def)

lemma refs_Cons:
  "refs ((k, v) # d) = (case v of PRef a \<Rightarrow> {a} | _ \<Rightarrow> {}) \<union> refs d"
  by (auto simp: refs_def split: pyval.splits)

lemma refs_update:
  "refs (AList.update k v d) \<subseteq> (case v of PRef a \<Rightarrow> {a} | _ \<Rightarrow> {}) \<union> refs d"
proof (induction d)
  case Nil
  then show ?case by (simp add: refs_Cons)
next
  case (Cons x d)
  obtain k' v' where x: "x = (k', v')" by (cases x)
  with Cons show ?case by (auto simp: refs_Cons split: pyval.splits)
qed

lemma refs_dict_update: "refs (dict_update d other) \<subseteq> refs d \<union> refs other"
  unfolding dict_update_def
proof (induction other arbitrary: d)
  case Nil
  then show ?case by simp
next
  case (Cons x other)
  obtain k v where x: "x = (k, v)" by (cases x)
  from Cons [of "AList.update k v d"] refs_update [of k v d] x
  show ?case by (auto simp: refs_Cons split: pyval.splits)
qed

lemma refs_map_of: "map_of d k = Some (PRef a) \<Longrightarrow> a \<in> refs d"
  by (force simp: refs_def dest: map_of_SomeD)

lemma read_val_attrs: "read_val (st\<lparr>attrs := f\<rparr>) v = read_val st v"
  by (cases v) (simp_all add: read_val_def)

text \<open>Allocation leaves every object that exists as it is.\<close>

lemma materialize_frame:
  assumes "materialize v st = (p, st')"
  shows "next_id st \<le> next_id st'" and "attrs st' = attrs st"
    and "\<And>a. a < next_id st \<Longrightarrow> mappings st' a = mappings st a"
    and "read_val st' p = v"
    and "(case p of PRef a \<Rightarrow> {a} | _ \<Rightarrow> {}) \<subseteq> {next_id st ..< next_id st'}"
  using assms by (cases v; auto simp: read_val_def)+

lemma read_val_frame:
  assumes "\<And>a. a < n \<Longrightarrow> mappings st' a = mappings st a"
    and "(case p of PRef a \<Rightarrow> {a} | _ \<Rightarrow> {}) \<subseteq> {..< n}"
  shows "read_val st' p = read_val st p"
  using assms by (cases p) (auto simp: read_val_def)

lemma deepcopy_frame:
  assumes "deepcopy d st = (c, st')"
  shows "next_id st \<le> next_id st' \<and> attrs st' = attrs st
       \<and> (\<forall>a. a < next_id st \<longrightarrow> mappings st' a = mappings st a)
       \<and> map (\<lambda>(k, v). (k, read_val st' v)) c = d
       \<and> refs c \<subseteq> {next_id st ..< next_id st'}"
  using assms
proof (induction d arbitrary: st c st')
  case Nil
  then show ?case by simp
next
  case (Cons x d)
  obtain k v where x: "x = (k, v)" by (cases x)
  obtain p st1 where m: "materialize v st = (p, st1)" by (cases "materialize v st")
  obtain c1 st2 where dc: "deepcopy d st1 = (c1, st2)" by (cases "deepcopy d st1")
  from Cons.prems x m dc have c: "c = (k, p) # c1" and st': "st' = st2" by simp_all
  note mf = materialize_frame [OF m]
  from Cons.IH [OF dc] have ih: "next_id st1 \<le> next_id st2" "attrs st2 = attrs st1"
    "\<And>a. a < next_id st1 \<Longrightarrow> mappings st2 a = mappings st1 a"
    "map (\<lambda>(k, v). (k, read_val st2 v)) c1 = d"
    "refs c1 \<subseteq> {next_id st1 ..< next_id st2}"
    by simp_all
  have "read_val st2 p = read_val st1 p"
    by (rule read_val_frame [of "next_id st1"]) (use ih(3) mf(5) in auto)
  with mf(4) have rp: "read_val st2 p = v" by simp
  have "refs c \<subseteq> {next_id st ..< next_id st2}"
    using mf(1,5) ih(1,5) by (auto simp: c refs_Cons split: pyval.splits)
  moreover have "\<forall>a. a < next_id st \<longrightarrow> mappings st2 a = mappings st a"
    using mf(1,3) ih(3) by auto
  ultimately show ?case
    using mf(1,2) ih(1,2,4) rp by (simp add: c st' x)
qed

text \<open>What \<open>_UpdateDict\<close> does when it does not raise.\<close>

lemma UpdateDict_ok:
  assumes "UpdateDict self d st = (Inr u, st')"
  obtains c st1 where "deepcopy d st = (c, st1)"
    "st' = st1\<lparr>attrs := (attrs st1)(self \<mapsto> dict_update (the_dict st1 self) c)\<rparr>"
  using assms
  by (cases "deepcopy d st") (auto simp: UpdateDict_def split: option.splits)

lemma UpdateDict_raises:
  assumes "UpdateDict self d st = (Inl e, st')"
  shows "st' = st \<and> (\<exists>key. e = ConfigError (InvalidKey key))"
  using assms
  by (cases "deepcopy d st") (auto simp: UpdateDict_def RaiseInvalidKey_def split: option.splits)

section \<open>The installation steps and the process environment\<close>

text \<open>Downloading, unpacking and the move loop never touch \<open>os.environ\<close>.\<close>

lemma DownloadTar_environ:
  "os_environ (snd (DownloadTar h tar_location download_directory s)) = os_environ s"
  by (auto simp: DownloadTar_def Let_def split: sum.splits option.splits)

lemma UnpackTar_stage_environ:
  "os_environ (snd (UnpackTar_stage h download_path root_directory s)) = os_environ s"
  by (auto simp: UnpackTar_stage_def Let_def split: sum.splits prod.splits)

lemma UnpackTar_shape_environ:
  "os_environ (snd (UnpackTar_shape h download_path tar_location root_directory s))
     = os_environ s"
  by (auto simp: UnpackTar_shape_def Let_def split: sum.splits prod.splits option.splits)

lemma UnpackTar_environ:
  "os_environ (snd (UnpackTar h download_path tar_location root_directory s)) = os_environ s"
proof (cases "UnpackTar_stage h download_path root_directory s")
  case (Pair r s1)
  with UnpackTar_stage_environ [of h download_path root_directory s]
  have env: "os_environ s1 = os_environ s" by simp
  show ?thesis
  proof (cases r)
    case None
    with Pair env UnpackTar_shape_environ [of h download_path tar_location root_directory s1]
    show ?thesis by (simp add: UnpackTar_def)
  next
    case (Some e)
    with Pair env show ?thesis by (simp add: UnpackTar_def)
  qed
qed

text \<open>The installer step publishes the driver location exactly when it succeeds.\<close>

lemma run_installer_environ:
  "run_installer h command env root_directory s = (r, s') \<Longrightarrow>
   os_environ s' =
     (case r of
        Inl e \<Rightarrow> os_environ s
      | Inr u \<Rightarrow> (os_environ s)(DRIVER_LOCATION_ENV \<mapsto> root_directory))"
  by (auto simp: run_installer_def Let_def HandlePossibleError_def
      split: prod.splits proc_result.splits if_splits)

lemma run_installer_sdk_dir:
  "run_installer h command env root_directory s = (Inr u, s') \<Longrightarrow>
   isdir (fs s') (path_join root_directory SDK_FOLDER)"
  by (auto simp: run_installer_def Let_def HandlePossibleError_def
      split: prod.splits proc_result.splits if_splits)

lemma Init_install_environ:
  assumes "Init_install h tar_location additional_components root_directory s = (r, s')"
  shows "os_environ s' =
     (case r of
        Inl e \<Rightarrow> os_environ s
      | Inr u \<Rightarrow> (os_environ s)(DRIVER_LOCATION_ENV \<mapsto> root_directory))"
proof (cases "DownloadTar h tar_location root_directory s")
  case d: (Pair rd s1)
  with DownloadTar_environ [of h tar_location root_directory s]
  have e1: "os_environ s1 = os_environ s" by simp
  show ?thesis
  proof (cases rd)
    case (Inl e)
    with d assms e1 show ?thesis by (auto simp: Init_install_def)
  next
    case (Inr download_path)
    show ?thesis
    proof (cases "UnpackTar h download_path tar_location root_directory s1")
      case u: (Pair ru s2)
      with UnpackTar_environ [of h download_path tar_location root_directory s1] e1
      have e2: "os_environ s2 = os_environ s" by simp
      show ?thesis
      proof (cases ru)
        case (Inl e)
        with d Inr u assms e2 show ?thesis by (auto simp: Init_install_def)
      next
        case snap: (Inr snapshot_url)
        let ?env = "installer_env h snapshot_url (os_environ s2)"
        let ?bad = "components_given additional_components
                      \<and> (case additional_components of
                            ComponentString c \<Rightarrow> True | _ \<Rightarrow> False)"
        from d Inr u snap assms
        have body: "(if ?env PYTHON_ENV = None then (Inl (InitError NoPython), s2)
                     else if ?bad then (Inl (InitError ComponentsNotIterable), s2)
                     else run_installer h
                            (installer_command root_directory additional_components)
                            ?env root_directory s2) = (r, s')"
          by (simp add: Init_install_def Let_def)
        show ?thesis
        proof (cases "?env PYTHON_ENV = None")
          case True
          with body have "r = Inl (InitError NoPython)" "s' = s2" by simp_all
          with e2 show ?thesis by simp
        next
          case py: False
          show ?thesis
          proof (cases ?bad)
            case True
            with body py have "r = Inl (InitError ComponentsNotIterable)" "s' = s2"
              by simp_all
            with e2 show ?thesis by simp
          next
            case False
            with body py
            have "run_installer h (installer_command root_directory additional_components)
                    ?env root_directory s2 = (r, s')"
              by simp
            from run_installer_environ [OF this] e2 show ?thesis by (cases r) simp_all
          qed
        qed
      qed
    qed
  qed
qed


lemma Init_install_sdk_dir:
  assumes "Init_install h tar_location additional_components root_directory s = (Inr u, s')"
  shows "isdir (fs s') (path_join root_directory SDK_FOLDER)"
proof -
  from assms obtain download_path s1 where
    d: "DownloadTar h tar_location root_directory s = (Inr download_path, s1)"
    by (cases "DownloadTar h tar_location root_directory s")
      (auto simp: Init_install_def split: sum.splits)
  with assms obtain snapshot_url s2 where
    u: "UnpackTar h download_path tar_location root_directory s1 = (Inr snapshot_url, s2)"
    by (cases "UnpackTar h download_path tar_location root_directory s1")
      (auto simp: Init_install_def split: sum.splits)
  let ?env = "installer_env h snapshot_url (os_environ s2)"
  let ?bad = "components_given additional_components
                \<and> (case additional_components of ComponentString c \<Rightarrow> True | _ \<Rightarrow> False)"
  from d u assms
  have body: "(if ?env PYTHON_ENV = None then (Inl (InitError NoPython), s2)
               else if ?bad then (Inl (InitError ComponentsNotIterable), s2)
               else run_installer h (installer_command root_directory additional_components)
                      ?env root_directory s2) = (Inr u, s')"
    by (simp add: Init_install_def Let_def)
  then have "run_installer h (installer_command root_directory additional_components)
               ?env root_directory s2 = (Inr u, s')"
    by (cases "?env PYTHON_ENV = None"; cases ?bad) simp_all
  then show ?thesis by (rule run_installer_sdk_dir)
qed

section \<open>Results about constructing a Config\<close>

lemma find_locked:
  "find P xs = Some x \<Longrightarrow> x \<in> set xs \<and> P x"
  by (induction xs) (auto split: if_splits)

lemma ValidateLocked_Some:
  assumes "ValidateLockedEnvironmentVariables d = Some e"
  shows "\<exists>m var. map_of d ''environment_variables'' = Some (DMap m)
           \<and> var \<in> set LOCKED_ENVIRONMENT_VARIABLES \<and> var \<in> fst ` set m
           \<and> e = ConfigError (LockedVariable var)"
proof -
  from assms obtain m where m: "map_of d ''environment_variables'' = Some (DMap m)"
    by (auto simp: ValidateLockedEnvironmentVariables_def split: option.splits dval.splits)
  with assms obtain var where
    f: "find (\<lambda>var. var \<in> set (map fst m)) LOCKED_ENVIRONMENT_VARIABLES = Some var"
    and e: "e = ConfigError (LockedVariable var)"
    by (auto simp: ValidateLockedEnvironmentVariables_def split: option.splits)
  from find_locked [OF f] m e show ?thesis by auto
qed

lemma ValidateLocked_None:
  assumes "ValidateLockedEnvironmentVariables d = None"
    and "map_of d ''environment_variables'' = Some (DMap m)"
  shows "\<forall>var\<in>set LOCKED_ENVIRONMENT_VARIABLES. var \<notin> fst ` set m"
  using assms
  by (auto simp: ValidateLockedEnvironmentVariables_def find_None_iff split: option.splits)

text \<open>The check raises exactly for a dictionary that holds a locked name.\<close>

lemma ValidateLocked_iff:
  "(ValidateLockedEnvironmentVariables d = None) = (\<not> holds_locked d)"
proof (cases "ValidateLockedEnvironmentVariables d")
  case None
  have "\<not> holds_locked d"
  proof (cases "map_of d ''environment_variables''")
    case (Some v)
    show ?thesis
    proof (cases v)
      case (DMap m)
      with Some ValidateLocked_None [OF None] show ?thesis
        by (simp add: holds_locked_def)
    qed (simp_all add: holds_locked_def Some)
  qed (simp add: holds_locked_def)
  with None show ?thesis by simp
next
  case (Some e)
  from ValidateLocked_Some [OF Some] obtain m var where
    "map_of d ''environment_variables'' = Some (DMap m)"
    "var \<in> set LOCKED_ENVIRONMENT_VARIABLES" "var \<in> fst ` set m"
    by blast
  then have "holds_locked d"
    unfolding holds_locked_def by (simp only: option.case dval.case) (rule bexI)
  with Some show ?thesis by simp
qed

text \<open>Reading the values of a dictionary commutes with updating it.\<close>

lemma map_update_val:
  "map (\<lambda>(k, v). (k, g v)) (AList.update k v d)
     = AList.update k (g v) (map (\<lambda>(k, v). (k, g v)) d)"
  by (induction d) auto

lemma map_dict_update:
  "map (\<lambda>(k, v). (k, g v)) (dict_update d c)
     = dict_update (map (\<lambda>(k, v). (k, g v)) d) (map (\<lambda>(k, v). (k, g v)) c)"
  unfolding dict_update_def
proof (induction c arbitrary: d)
  case Nil
  then show ?case by simp
next
  case (Cons x c)
  obtain k v where x: "x = (k, v)" by (cases x)
  from Cons [of "AList.update k v d"] show ?case
    by (simp add: x map_update_val)
qed

text \<open>An update that does not raise: the object reads as before, updated with the
  dictionary, when what it referred to had been allocated.\<close>

lemma UpdateDict_snapshot:
  assumes run: "UpdateDict self d st = (Inr u, st')"
    and held: "refs (the_dict st self) \<subseteq> {..< next_id st}"
  shows "snapshot st' self = dict_update (snapshot st self) d"
    and "refs (the_dict st' self) \<subseteq> {..< next_id st'}"
proof -
  from run obtain c st1 where dc: "deepcopy d st = (c, st1)"
    and st': "st' = st1\<lparr>attrs := (attrs st1)(self \<mapsto> dict_update (the_dict st1 self) c)\<rparr>"
    by (rule UpdateDict_ok)
  from deepcopy_frame [OF dc] have fr: "next_id st \<le> next_id st1" "attrs st1 = attrs st"
    "\<And>a. a < next_id st \<Longrightarrow> mappings st1 a = mappings st a"
    "map (\<lambda>(k, v). (k, read_val st1 v)) c = d"
    "refs c \<subseteq> {next_id st ..< next_id st1}"
    by simp_all
  from fr(2) have same: "the_dict st1 self = the_dict st self"
    by (simp add: the_dict_def)
  have own: "the_dict st' self = dict_update (the_dict st self) c"
    by (simp add: st' the_dict_def fr(2))
  have old: "read_val st1 v = read_val st v" if "(k, v) \<in> set (the_dict st self)" for k v
  proof (rule read_val_frame [of "next_id st"])
    show "mappings st1 a = mappings st a" if "a < next_id st" for a
      using that by (rule fr(3))
    from that held show "(case v of PRef a \<Rightarrow> {a} | _ \<Rightarrow> {}) \<subseteq> {..< next_id st}"
      by (cases v) (force simp: refs_def)+
  qed
  have "snapshot st' self
      = map (\<lambda>(k, v). (k, read_val st' v)) (dict_update (the_dict st self) c)"
    by (simp only: snapshot_def own)
  also have "\<dots> = map (\<lambda>(k, v). (k, read_val st1 v)) (dict_update (the_dict st self) c)"
    by (simp only: st' read_val_attrs)
  also have "\<dots> = dict_update (map (\<lambda>(k, v). (k, read_val st1 v)) (the_dict st self))
                      (map (\<lambda>(k, v). (k, read_val st1 v)) c)"
    by (rule map_dict_update)
  also have "map (\<lambda>(k, v). (k, read_val st1 v)) (the_dict st self) = snapshot st self"
    unfolding snapshot_def using old by auto
  finally show "snapshot st' self = dict_update (snapshot st self) d"
    by (simp add: fr(4))
  from refs_dict_update [of "the_dict st self" c] held fr(1,5)
  have "refs (dict_update (the_dict st self) c) \<subseteq> {..< next_id st1}"
    by fastforce
  moreover have "next_id st' = next_id st1"
    by (simp add: st')
  ultimately show "refs (the_dict st' self) \<subseteq> {..< next_id st'}"
    by (simp only: own)
qed

lemma UpdateDict_valid:
  assumes "valid_keys d"
  shows "\<exists>st'. UpdateDict self d st = (Inr (), st')"
proof -
  from assms have "find (\<lambda>key. key \<notin> set (map fst DEFAULT_CONFIG)) (map fst d) = None"
    by (auto simp: valid_keys_def find_None_iff)
  then show ?thesis
    by (cases "deepcopy d st") (simp add: UpdateDict_def)
qed

lemma valid_keys_DEFAULT: "valid_keys DEFAULT_CONFIG"
  by (simp add: valid_keys_def)

text \<open>
  What a construction does whose file, when one is given, loads as a dictionary.  It
  raises for the file's dictionary when that holds a locked name; else for a key of the
  file or of the keyword arguments that is not valid; else for the resulting
  dictionary when that holds a locked name; else it returns the new object, which
  reads as the resulting dictionary.
\<close>

lemma Config_init_run:
  fixes yaml :: "(string \<times> dval) list option"
  defines "filename \<equiv> map_option Document yaml"
  shows "holds_locked (file_dict yaml) \<Longrightarrow>
           \<exists>var\<in>set LOCKED_ENVIRONMENT_VARIABLES.
             fst (Config_init filename kwargs st) = Inl (ConfigError (LockedVariable var))"
    and "\<not> holds_locked (file_dict yaml) \<Longrightarrow> \<not> (valid_keys (file_dict yaml) \<and> valid_keys kwargs) \<Longrightarrow>
           \<exists>key. fst (Config_init filename kwargs st) = Inl (ConfigError (InvalidKey key))"
    and "\<not> holds_locked (file_dict yaml) \<Longrightarrow> valid_keys (file_dict yaml) \<Longrightarrow> valid_keys kwargs \<Longrightarrow>
           holds_locked (resulting_dict yaml kwargs) \<Longrightarrow>
           \<exists>var\<in>set LOCKED_ENVIRONMENT_VARIABLES.
             fst (Config_init filename kwargs st) = Inl (ConfigError (LockedVariable var))"
    and "\<not> holds_locked (file_dict yaml) \<Longrightarrow> valid_keys (file_dict yaml) \<Longrightarrow> valid_keys kwargs \<Longrightarrow>
           \<not> holds_locked (resulting_dict yaml kwargs) \<Longrightarrow>
           fst (Config_init filename kwargs st) = Inr (next_id st)
           \<and> snapshot (snd (Config_init filename kwargs st)) (next_id st)
               = resulting_dict yaml kwargs"
proof -
  let ?n = "next_id st"
  let ?st0 = "st\<lparr>attrs := (attrs st)(?n \<mapsto> []), next_id := Suc ?n\<rparr>"
  have new: "new_object st = (?n, ?st0)"
    by (simp add: new_object_def)
  have empty: "the_dict ?st0 ?n = []" "snapshot ?st0 ?n = []"
    by (simp_all add: the_dict_def snapshot_def)
  from UpdateDict_valid [OF valid_keys_DEFAULT, of ?n ?st0]
  obtain st1 where u1: "UpdateDict ?n DEFAULT_CONFIG ?st0 = (Inr (), st1)" ..
  from UpdateDict_snapshot [OF u1] empty
  have s1: "snapshot st1 ?n = dict_update [] DEFAULT_CONFIG"
    and r1: "refs (the_dict st1 ?n) \<subseteq> {..< next_id st1}"
    by simp_all
  let ?load = "case filename of None \<Rightarrow> (Inr (), st1) | Some doc \<Rightarrow> LoadFile ?n doc st1"
  have overlays: "Config_overlays filename kwargs st =
      (case ?load of
         (Inl e, st2) \<Rightarrow> (Inl e, st2)
       | (Inr u, st2) \<Rightarrow>
           (case UpdateDict ?n kwargs st2 of
              (Inl e, st3) \<Rightarrow> (Inl e, st3)
            | (Inr u, st3) \<Rightarrow> (Inr ?n, st3)))"
    by (simp add: Config_overlays_def new u1)
  have load: "?load = (case yaml of
      None \<Rightarrow> (Inr (), st1)
    | Some config \<Rightarrow>
        (case ValidateLockedEnvironmentVariables config of
           Some e \<Rightarrow> (Inl e, st1)
         | None \<Rightarrow> UpdateDict ?n config st1))"
    by (cases yaml) (simp_all add: filename_def LoadFile_def)
  show "\<exists>var\<in>set LOCKED_ENVIRONMENT_VARIABLES.
      fst (Config_init filename kwargs st) = Inl (ConfigError (LockedVariable var))"
    if "holds_locked (file_dict yaml)"
  proof -
    from that obtain config where f: "yaml = Some config" and h: "holds_locked config"
      by (cases yaml) (simp_all add: file_dict_def holds_locked_def)
    from h ValidateLocked_iff [of config] obtain e where
      v: "ValidateLockedEnvironmentVariables config = Some e"
      by (cases "ValidateLockedEnvironmentVariables config") simp_all
    from ValidateLocked_Some [OF v] obtain var where
      var: "var \<in> set LOCKED_ENVIRONMENT_VARIABLES" and "e = ConfigError (LockedVariable var)"
      by blast
    with v f have "Config_init filename kwargs st = (Inl (ConfigError (LockedVariable var)), st1)"
      by (simp add: Config_init_def overlays load)
    with var show ?thesis by (intro bexI [of _ var]) simp_all
  qed
  have loaded: "\<exists>st2. ?load = (Inr (), st2)
        \<and> snapshot st2 ?n = dict_update (dict_update [] DEFAULT_CONFIG) (file_dict yaml)
        \<and> refs (the_dict st2 ?n) \<subseteq> {..< next_id st2}"
    if nl: "\<not> holds_locked (file_dict yaml)" and vf: "valid_keys (file_dict yaml)"
  proof (cases yaml)
    case None
    with s1 r1 show ?thesis
      by (simp add: load file_dict_def dict_update_def)
  next
    case (Some config)
    with nl ValidateLocked_iff [of config]
    have v: "ValidateLockedEnvironmentVariables config = None"
      by (simp add: file_dict_def)
    from vf Some have "valid_keys config" by (simp add: file_dict_def)
    from UpdateDict_valid [OF this, of ?n st1]
    obtain st2 where u2: "UpdateDict ?n config st1 = (Inr (), st2)" ..
    from UpdateDict_snapshot [OF u2 r1] s1 Some
    have "snapshot st2 ?n = dict_update (dict_update [] DEFAULT_CONFIG) (file_dict yaml)"
      and "refs (the_dict st2 ?n) \<subseteq> {..< next_id st2}"
      by (simp_all add: file_dict_def)
    with u2 v Some show ?thesis
      by (simp add: load)
  qed
  show "\<exists>key. fst (Config_init filename kwargs st) = Inl (ConfigError (InvalidKey key))"
    if nl: "\<not> holds_locked (file_dict yaml)"
      and nv: "\<not> (valid_keys (file_dict yaml) \<and> valid_keys kwargs)"
  proof (cases "valid_keys (file_dict yaml)")
    case False
    then obtain config where f: "yaml = Some config" and bad: "\<not> valid_keys config"
      by (cases yaml) (simp_all add: file_dict_def valid_keys_def)
    from nl f ValidateLocked_iff [of config]
    have v: "ValidateLockedEnvironmentVariables config = None"
      by (simp add: file_dict_def)
    obtain r st2 where u2: "UpdateDict ?n config st1 = (r, st2)"
      by (cases "UpdateDict ?n config st1")
    have "\<exists>key. r = Inl (ConfigError (InvalidKey key))"
    proof (cases r)
      case (Inl e)
      with UpdateDict_raises [of ?n config st1 e st2] u2 show ?thesis by simp
    next
      case (Inr u)
      with u2 have "find (\<lambda>key. key \<notin> set (map fst DEFAULT_CONFIG)) (map fst config) = None"
        by (cases "find (\<lambda>key. key \<notin> set (map fst DEFAULT_CONFIG)) (map fst config)")
           (simp_all add: UpdateDict_def)
      then have "valid_keys config"
        by (auto simp: valid_keys_def find_None_iff)
      with bad show ?thesis by simp
    qed
    then obtain key where "r = Inl (ConfigError (InvalidKey key))" ..
    with u2 v f have "Config_init filename kwargs st = (Inl (ConfigError (InvalidKey key)), st2)"
      by (simp add: Config_init_def overlays load)
    then show ?thesis by simp
  next
    case True
    with nv have bad: "\<not> valid_keys kwargs" by simp
    from loaded [OF nl True] obtain st2 where l: "?load = (Inr (), st2)" by blast
    obtain r st3 where u3: "UpdateDict ?n kwargs st2 = (r, st3)"
      by (cases "UpdateDict ?n kwargs st2")
    have "\<exists>key. r = Inl (ConfigError (InvalidKey key))"
    proof (cases r)
      case (Inl e)
      with UpdateDict_raises [of ?n kwargs st2 e st3] u3 show ?thesis by simp
    next
      case (Inr u)
      with u3 have "find (\<lambda>key. key \<notin> set (map fst DEFAULT_CONFIG)) (map fst kwargs) = None"
        by (cases "find (\<lambda>key. key \<notin> set (map fst DEFAULT_CONFIG)) (map fst kwargs)")
           (simp_all add: UpdateDict_def)
      then have "valid_keys kwargs"
        by (auto simp: valid_keys_def find_None_iff)
      with bad show ?thesis by simp
    qed
    then obtain key where "r = Inl (ConfigError (InvalidKey key))" ..
    with u3 have "Config_init filename kwargs st = (Inl (ConfigError (InvalidKey key)), st3)"
      by (simp add: Config_init_def overlays l)
    then show ?thesis by simp
  qed
  have built: "\<exists>st3. Config_overlays filename kwargs st = (Inr ?n, st3)
        \<and> snapshot st3 ?n = resulting_dict yaml kwargs"
    if nl: "\<not> holds_locked (file_dict yaml)" and vf: "valid_keys (file_dict yaml)"
      and vk: "valid_keys kwargs"
  proof -
    from loaded [OF nl vf] obtain st2 where l: "?load = (Inr (), st2)"
      and s2: "snapshot st2 ?n = dict_update (dict_update [] DEFAULT_CONFIG) (file_dict yaml)"
      and r2: "refs (the_dict st2 ?n) \<subseteq> {..< next_id st2}"
      by blast
    from UpdateDict_valid [OF vk, of ?n st2]
    obtain st3 where u3: "UpdateDict ?n kwargs st2 = (Inr (), st3)" ..
    from UpdateDict_snapshot(1) [OF u3 r2] s2
    have "snapshot st3 ?n = resulting_dict yaml kwargs"
      by (simp add: resulting_dict_def)
    moreover from u3 have "Config_overlays filename kwargs st = (Inr ?n, st3)"
      by (simp add: overlays l)
    ultimately show ?thesis by blast
  qed
  show "\<exists>var\<in>set LOCKED_ENVIRONMENT_VARIABLES.
      fst (Config_init filename kwargs st) = Inl (ConfigError (LockedVariable var))"
    if nl: "\<not> holds_locked (file_dict yaml)" and vf: "valid_keys (file_dict yaml)"
      and vk: "valid_keys kwargs" and h: "holds_locked (resulting_dict yaml kwargs)"
  proof -
    from built [OF nl vf vk] obtain st3 where
      o: "Config_overlays filename kwargs st = (Inr ?n, st3)"
      and s3: "snapshot st3 ?n = resulting_dict yaml kwargs"
      by blast
    from h ValidateLocked_iff [of "resulting_dict yaml kwargs"] obtain e where
      v: "ValidateLockedEnvironmentVariables (resulting_dict yaml kwargs) = Some e"
      by (cases "ValidateLockedEnvironmentVariables (resulting_dict yaml kwargs)") simp_all
    from ValidateLocked_Some [OF v] obtain var where
      var: "var \<in> set LOCKED_ENVIRONMENT_VARIABLES" and "e = ConfigError (LockedVariable var)"
      by blast
    with v o s3 have "Config_init filename kwargs st
        = (Inl (ConfigError (LockedVariable var)), st3)"
      by (simp add: Config_init_def)
    with var show ?thesis by (intro bexI [of _ var]) simp_all
  qed
  show "fst (Config_init filename kwargs st) = Inr ?n
      \<and> snapshot (snd (Config_init filename kwargs st)) ?n = resulting_dict yaml kwargs"
    if nl: "\<not> holds_locked (file_dict yaml)" and vf: "valid_keys (file_dict yaml)"
      and vk: "valid_keys kwargs" and h: "\<not> holds_locked (resulting_dict yaml kwargs)"
  proof -
    from built [OF nl vf vk] obtain st3 where
      o: "Config_overlays filename kwargs st = (Inr ?n, st3)"
      and s3: "snapshot st3 ?n = resulting_dict yaml kwargs"
      by blast
    from h ValidateLocked_iff [of "resulting_dict yaml kwargs"]
    have "ValidateLockedEnvironmentVariables (resulting_dict yaml kwargs) = None"
      by simp
    with o s3 have "Config_init filename kwargs st = (Inr ?n, st3)"
      by (simp add: Config_init_def)
    with s3 show ?thesis by simp
  qed
qed

text \<open>
  C1.  Take a construction of a \<open>Config\<close> whose file, when a file name is given, loads
  as a dictionary; the resulting dictionary is the defaults, updated with the file's
  dictionary, updated with the keyword arguments.  If the \<open>environment_variables\<close>
  mapping of the resulting dictionary, or that of the file's own dictionary, has a
  locked name (\<open>CLOUDSDK_CONFIG\<close> or \<open>CLOUDSDK_DRIVER_LOCATION\<close>) among its keys, the
  construction fails with a \<open>ConfigError\<close>, which is the one for a locked name when
  every key of the file and of the keyword arguments is a key of the defaults.
  Otherwise the construction does not fail for a locked name; when every key is a key
  of the defaults it returns the new object, and the object reads as the resulting
  dictionary.
\<close>

theorem Config_init_locked_variables:
  "(holds_locked (resulting_dict yaml kwargs) \<or> holds_locked (file_dict yaml) \<longrightarrow>
      (\<exists>f. fst (Config_init (map_option Document yaml) kwargs st) = Inl (ConfigError f)
          \<and> (valid_keys (file_dict yaml) \<and> valid_keys kwargs \<longrightarrow>
               (\<exists>var\<in>set LOCKED_ENVIRONMENT_VARIABLES. f = LockedVariable var))))
 \<and> (\<not> holds_locked (resulting_dict yaml kwargs) \<and> \<not> holds_locked (file_dict yaml) \<longrightarrow>
      (\<forall>var. fst (Config_init (map_option Document yaml) kwargs st)
               \<noteq> Inl (ConfigError (LockedVariable var)))
    \<and> (valid_keys (file_dict yaml) \<and> valid_keys kwargs \<longrightarrow>
         fst (Config_init (map_option Document yaml) kwargs st) = Inr (next_id st)
       \<and> snapshot (snd (Config_init (map_option Document yaml) kwargs st)) (next_id st)
           = resulting_dict yaml kwargs))"
proof -
  let ?run = "Config_init (map_option Document yaml) kwargs st"
  note run = Config_init_run [of yaml kwargs st]
  have locked: "\<exists>f. fst ?run = Inl (ConfigError f)
        \<and> (valid_keys (file_dict yaml) \<and> valid_keys kwargs \<longrightarrow>
             (\<exists>var\<in>set LOCKED_ENVIRONMENT_VARIABLES. f = LockedVariable var))"
    if h: "holds_locked (resulting_dict yaml kwargs) \<or> holds_locked (file_dict yaml)"
  proof (cases "holds_locked (file_dict yaml)")
    case True
    from run(1) [OF True] obtain var where "var \<in> set LOCKED_ENVIRONMENT_VARIABLES"
      "fst ?run = Inl (ConfigError (LockedVariable var))"
      by blast
    then show ?thesis by blast
  next
    case no: False
    show ?thesis
    proof (cases "valid_keys (file_dict yaml) \<and> valid_keys kwargs")
      case False
      from run(2) [OF no False] obtain key where
        "fst ?run = Inl (ConfigError (InvalidKey key))"
        by blast
      with False show ?thesis by blast
    next
      case True
      with h no run(3) [OF no] obtain var where "var \<in> set LOCKED_ENVIRONMENT_VARIABLES"
        "fst ?run = Inl (ConfigError (LockedVariable var))"
        by blast
      then show ?thesis by blast
    qed
  qed
  have clean: "(\<forall>var. fst ?run \<noteq> Inl (ConfigError (LockedVariable var)))
      \<and> (valid_keys (file_dict yaml) \<and> valid_keys kwargs \<longrightarrow>
           fst ?run = Inr (next_id st)
         \<and> snapshot (snd ?run) (next_id st) = resulting_dict yaml kwargs)"
    if h: "\<not> holds_locked (resulting_dict yaml kwargs)" and no: "\<not> holds_locked (file_dict yaml)"
  proof (cases "valid_keys (file_dict yaml) \<and> valid_keys kwargs")
    case False
    from run(2) [OF no False] obtain key where
      "fst ?run = Inl (ConfigError (InvalidKey key))"
      by blast
    with False show ?thesis by simp
  next
    case True
    with run(4) [OF no _ _ h] have "fst ?run = Inr (next_id st)"
      "snapshot (snd ?run) (next_id st) = resulting_dict yaml kwargs"
      by simp_all
    then show ?thesis by simp
  qed
  from locked clean show ?thesis by blast
qed

theorem Config_init_locked_variables_witness:
  "fst (Config_init
          (Some (Document [(''environment_variables'', DMap [(''CLOUDSDK_CONFIG'', ''foo'')])]))
          [] empty_store)
     = Inl (ConfigError (LockedVariable ''CLOUDSDK_CONFIG''))
 \<and> fst (Config_init None [(''environment_variables'', DMap [(''CLOUDSDK_CONFIG'', ''foo'')])]
          empty_store)
     = Inl (ConfigError (LockedVariable ''CLOUDSDK_CONFIG''))
 \<and> fst (Config_init None [(''project'', DStr ''foo'')] empty_store) = Inr 0
 \<and> snapshot (snd (Config_init None [(''project'', DStr ''foo'')] empty_store)) 0
     = [(''environment_variables'', DMap [(''CLOUDSDK_CORE_DISABLE_PROMPTS'', ''1'')]),
        (''service_account_email'', DNone),
        (''service_account_keyfile'', DNone),
        (''project'', DStr ''foo''),
        (''properties'', DMap [])]"
proof -
  let ?bad = "[(''environment_variables'', DMap [(''CLOUDSDK_CONFIG'', ''foo'')])]"
  let ?good = "[(''project'', DStr ''foo'')]"
  have fb: "holds_locked (resulting_dict (Some ?bad) []) \<or> holds_locked (file_dict (Some ?bad))"
    "valid_keys (file_dict (Some ?bad)) \<and> valid_keys []"
    by code_simp+
  have kb: "holds_locked (resulting_dict None ?bad) \<or> holds_locked (file_dict None)"
    "valid_keys (file_dict None) \<and> valid_keys ?bad"
    by code_simp+
  have g: "\<not> holds_locked (resulting_dict None ?good) \<and> \<not> holds_locked (file_dict None)"
    "valid_keys (file_dict None) \<and> valid_keys ?good"
    by code_simp+
  have res: "resulting_dict None ?good
      = [(''environment_variables'', DMap [(''CLOUDSDK_CORE_DISABLE_PROMPTS'', ''1'')]),
         (''service_account_email'', DNone),
         (''service_account_keyfile'', DNone),
         (''project'', DStr ''foo''),
         (''properties'', DMap [])]"
    "next_id empty_store = 0"
    by code_simp+
  have names: "set LOCKED_ENVIRONMENT_VARIABLES = {''CLOUDSDK_CONFIG'', ''CLOUDSDK_DRIVER_LOCATION''}"
    by (simp add: LOCKED_ENVIRONMENT_VARIABLES_def CONFIG_ENV_def DRIVER_LOCATION_ENV_def)
  have direct: "fst (Config_init (Some (Document ?bad)) [] empty_store)
        \<noteq> Inl (ConfigError (LockedVariable ''CLOUDSDK_DRIVER_LOCATION''))"
    "fst (Config_init None ?bad empty_store)
        \<noteq> Inl (ConfigError (LockedVariable ''CLOUDSDK_DRIVER_LOCATION''))"
    by code_simp+
  from Config_init_locked_variables [of "Some ?bad" "[]" empty_store, THEN conjunct1,
      THEN mp, OF fb(1)] fb(2) names direct(1)
  have B: "fst (Config_init (Some (Document ?bad)) [] empty_store)
      = Inl (ConfigError (LockedVariable ''CLOUDSDK_CONFIG''))"
    by auto
  from Config_init_locked_variables [of None ?bad empty_store, THEN conjunct1,
      THEN mp, OF kb(1)] kb(2) names direct(2)
  have K: "fst (Config_init None ?bad empty_store)
      = Inl (ConfigError (LockedVariable ''CLOUDSDK_CONFIG''))"
    by auto
  from Config_init_locked_variables [of None ?good empty_store, THEN conjunct2,
      THEN mp, OF g(1), THEN conjunct2, THEN mp, OF g(2)] res
  have G: "fst (Config_init None ?good empty_store) = Inr 0"
    "snapshot (snd (Config_init None ?good empty_store)) 0
      = [(''environment_variables'', DMap [(''CLOUDSDK_CORE_DISABLE_PROMPTS'', ''1'')]),
         (''service_account_email'', DNone),
         (''service_account_keyfile'', DNone),
         (''project'', DStr ''foo''),
         (''properties'', DMap [])]"
    by simp_all
  from B K G show ?thesis by (intro conjI)
qed

text \<open>A file whose \<open>environment_variables\<close> has a locked name, loaded under keyword
  arguments that replace \<open>environment_variables\<close> with an empty mapping: the resulting
  mapping is empty, and the construction fails for the locked name of the file.\<close>

theorem Config_init_refuses_overridden_file:
  "map_of (resulting_dict
             (Some [(''environment_variables'', DMap [(''CLOUDSDK_CONFIG'', ''foo'')])])
             [(''environment_variables'', DMap [])]) ''environment_variables''
     = Some (DMap [])
 \<and> \<not> holds_locked
       (resulting_dict
          (Some [(''environment_variables'', DMap [(''CLOUDSDK_CONFIG'', ''foo'')])])
          [(''environment_variables'', DMap [])])
 \<and> fst (Config_init
          (Some (Document [(''environment_variables'', DMap [(''CLOUDSDK_CONFIG'', ''foo'')])]))
          [(''environment_variables'', DMap [])] empty_store)
     = Inl (ConfigError (LockedVariable ''CLOUDSDK_CONFIG''))"
  by code_simp
section \<open>Results about Init followed by Destroy\<close>

lemma isdir_parent:
  assumes "isdir t (path_join root_directory n)" "valid_name n" "root_directory \<noteq> []"
  shows "isdir t root_directory"
proof -
  from assms(1) stat_join [OF assms(2), of t root_directory]
  have "lookup (locate root_directory @ [n]) t \<noteq> None"
    by (auto simp: isdir_def split: option.splits)
  from lookup_snoc_dir [OF this] obtain es where
    "lookup (locate root_directory) t = Some (Dir es)" by blast
  with assms(3) show ?thesis by (rule lookup_isdir)
qed

lemma rmtree_gone:
  assumes "locate p \<noteq> []"
  shows "\<not> path_exists (rmtree t p) p"
  using lookup_del_at_prefix [OF assms, of "[]" t]
  by (simp add: path_exists_def stat_def rmtree_def)

text \<open>What a successful \<open>Init\<close> went through.\<close>

lemma Init_success:
  assumes "Init h tar_location additional_components root_directory s = (Inr u, s1)"
  obtains tl s0 where
    "Init_locations h tar_location root_directory s
       = (Inr (tl, case root_directory of None \<Rightarrow> tmpdir h | Some r \<Rightarrow> r), s0)"
    "Init_install h tl additional_components
       (case root_directory of None \<Rightarrow> tmpdir h | Some r \<Rightarrow> r) s0 = (Inr u, s1)"
proof -
  let ?R = "case root_directory of None \<Rightarrow> tmpdir h | Some r \<Rightarrow> r"
  from assms have pre: "\<not> is_windows h" "os_environ s DRIVER_LOCATION_ENV = None"
    by (auto simp: Init_def split: if_splits)
  obtain rl s0 where l: "Init_locations h tar_location root_directory s = (rl, s0)"
    by (cases "Init_locations h tar_location root_directory s")
  with assms pre obtain tl R where rl: "rl = Inr (tl, R)"
    by (cases rl) (auto simp: Init_def)
  from l rl have "R = ?R"
    by (auto simp: Init_locations_def Let_def split: option.splits sum.splits if_splits)
  with assms pre l rl that show thesis by (simp add: Init_def)
qed

text \<open>
  C2, as the code has it.  After a successful \<open>Init\<close>, \<open>Destroy\<close> clears the driver
  location and the keep marker.  When the caller gave a root directory that was a
  directory already, \<open>Destroy\<close> leaves the whole file system as it is, so the directory
  is preserved.  When \<open>Init\<close> made the root directory itself, either the temporary one
  (no root directory given) or the one the caller named that was not a directory yet,
  and the keep marker was not set beforehand, \<open>Destroy\<close> removes it.
\<close>

theorem Destroy_after_Init:
  assumes ok: "Init h tar_location additional_components root_directory s = (Inr (), s1)"
  shows "(\<forall>r. root_directory = Some r \<and> isdir (fs s) r \<longrightarrow>
            fs (Destroy s1) = fs s1 \<and> isdir (fs (Destroy s1)) r)
       \<and> (\<not> truthy (os_environ s DRIVER_KEEP_LOCATION_ENV)
            \<and> (root_directory = None \<or> (\<exists>r. root_directory = Some r \<and> \<not> isdir (fs s) r)) \<longrightarrow>
            \<not> path_exists (fs (Destroy s1))
                 (case root_directory of None \<Rightarrow> tmpdir h | Some r \<Rightarrow> r))
       \<and> os_environ (Destroy s1) DRIVER_LOCATION_ENV = None
       \<and> os_environ (Destroy s1) DRIVER_KEEP_LOCATION_ENV = None"
proof -
  let ?R = "case root_directory of None \<Rightarrow> tmpdir h | Some r \<Rightarrow> r"
  have names: "DRIVER_KEEP_LOCATION_ENV \<noteq> DRIVER_LOCATION_ENV"
    by (simp add: DRIVER_KEEP_LOCATION_ENV_def DRIVER_LOCATION_ENV_def)
  have sdk: "valid_name SDK_FOLDER"
    by (simp add: valid_name_def SDK_FOLDER_def slash_def)
  from ok obtain tl s0 where
    loc: "Init_locations h tar_location root_directory s = (Inr (tl, ?R), s0)"
    and inst: "Init_install h tl additional_components ?R s0 = (Inr (), s1)"
    by (rule Init_success)
  from Init_install_environ [OF inst]
  have env1: "os_environ s1 = (os_environ s0)(DRIVER_LOCATION_ENV \<mapsto> ?R)" by simp
  from Init_install_sdk_dir [OF inst]
  have sdkdir: "isdir (fs s1) (path_join ?R SDK_FOLDER)" .
  from env1 names have drv: "os_environ s1 DRIVER_LOCATION_ENV = Some ?R"
    and keep1: "os_environ s1 DRIVER_KEEP_LOCATION_ENV = os_environ s0 DRIVER_KEEP_LOCATION_ENV"
    by simp_all
  have cleared: "os_environ (Destroy s1) DRIVER_LOCATION_ENV = None
      \<and> os_environ (Destroy s1) DRIVER_KEEP_LOCATION_ENV = None"
    using drv names by (auto simp: Destroy_def Let_def split: option.splits)
  have kept: "fs (Destroy s1) = fs s1 \<and> isdir (fs (Destroy s1)) r"
    if r: "root_directory = Some r" "isdir (fs s) r" for r
  proof -
    from loc r have "os_environ s0 DRIVER_KEEP_LOCATION_ENV = Some ''True''"
      by (auto simp: Init_locations_def Let_def)
    with keep1 have keep: "os_environ s1 DRIVER_KEEP_LOCATION_ENV = Some ''True''"
      by simp
    with drv have same: "fs (Destroy s1) = fs s1"
      by (simp add: Destroy_def Let_def)
    from r(2) have "r \<noteq> []" by (auto simp: isdir_def stat_def)
    with sdkdir r(1) sdk have "isdir (fs s1) r" by (auto intro: isdir_parent)
    with same show ?thesis by simp
  qed
  have removed: "\<not> path_exists (fs (Destroy s1)) ?R"
    if nokeep: "\<not> truthy (os_environ s DRIVER_KEEP_LOCATION_ENV)"
      and made: "root_directory = None \<or> (\<exists>r. root_directory = Some r \<and> \<not> isdir (fs s) r)"
  proof -
    from loc made obtain t where mk: "makedirs (fs s) ?R = Inr t" and s0: "s0 = s\<lparr>fs := t\<rparr>"
      by (auto simp: Init_locations_def Let_def split: option.splits sum.splits if_splits)
    from makedirs_locate [OF mk] have R: "?R \<noteq> []" "locate ?R \<noteq> []" by simp_all
    from sdkdir sdk R(1) have dir: "isdir (fs s1) ?R" by (rule isdir_parent)
    from keep1 s0 nokeep
    have "\<not> truthy (os_environ s1 DRIVER_KEEP_LOCATION_ENV)" by simp
    with drv dir have "fs (Destroy s1) = rmtree (fs s1) ?R"
      by (cases "os_environ s1 DRIVER_KEEP_LOCATION_ENV") (simp_all add: Destroy_def Let_def)
    with rmtree_gone [OF R(2)] show ?thesis by simp
  qed
  from kept removed cleared show ?thesis by blast
qed

theorem Destroy_after_Init_witness:
  "fst (Init example_host (Some ''sdk.tar'') NoComponents (Some ''work'') example_state)
     = Inr ()
 \<and> isdir (fs (Destroy (snd (Init example_host (Some ''sdk.tar'') NoComponents
                              (Some ''work'') example_state)))) ''work''
 \<and> fst (Init example_host (Some ''http://host/sdk.tar'') NoComponents None example_state)
     = Inr ()
 \<and> \<not> path_exists
       (fs (Destroy (snd (Init example_host (Some ''http://host/sdk.tar'') NoComponents None
                            example_state)))) ''/tmp/tmpsdk''"
proof -
  let ?a = "Init example_host (Some ''sdk.tar'') NoComponents (Some ''work'') example_state"
  let ?b = "Init example_host (Some ''http://host/sdk.tar'') NoComponents None example_state"
  have a: "fst ?a = Inr ()" by code_simp
  have b: "fst ?b = Inr ()" by code_simp
  from a have ra: "?a = (Inr (), snd ?a)" by (simp add: prod_eq_iff)
  from b have rb: "?b = (Inr (), snd ?b)" by (simp add: prod_eq_iff)
  have dir: "isdir (fs example_state) ''work''" by code_simp
  have nokeep: "\<not> truthy (os_environ example_state DRIVER_KEEP_LOCATION_ENV)" by code_simp
  have tmp: "tmpdir example_host = ''/tmp/tmpsdk''" by (simp add: example_host_def)
  note A = Destroy_after_Init [OF ra, THEN conjunct1, THEN spec, THEN mp, THEN conjunct2]
  note B = Destroy_after_Init [OF rb, THEN conjunct2, THEN conjunct1, THEN mp]
  have "isdir (fs (Destroy (snd ?a))) ''work''"
    by (rule A) (simp add: dir)
  moreover have "\<not> path_exists (fs (Destroy (snd ?b)))
      (case None of None \<Rightarrow> tmpdir example_host | Some r \<Rightarrow> r)"
    by (rule B) (simp add: nokeep)
  ultimately show ?thesis using a b by (simp add: tmp)
qed

text \<open>
  The claim as stated fails: a root directory that the caller supplies but that does not
  exist yet is made by \<open>Init\<close> without the keep marker, and \<open>Destroy\<close> removes it.
\<close>

theorem Destroy_removes_supplied_root:
  "fst (Init example_host (Some ''sdk.tar'') NoComponents (Some ''new'') example_state)
     = Inr ()
 \<and> isdir (fs (snd (Init example_host (Some ''sdk.tar'') NoComponents (Some ''new'')
                     example_state))) ''new''
 \<and> \<not> path_exists
       (fs (Destroy (snd (Init example_host (Some ''sdk.tar'') NoComponents (Some ''new'')
                            example_state)))) ''new''"
  by code_simp

section \<open>Results about UnpackTar\<close>

text \<open>Moving an entry of the staging directory \<open>k\<close> up into the directory above it.\<close>

lemma move_step:
  assumes dir: "lookup R t = Some (Dir es)"
    and src: "lookup (R @ [k, n]) t = Some sub"
    and dst: "lookup (R @ [n]) t = None"
  obtains t1 where
    "put_at (R @ [n]) sub (del_at (R @ [k, n]) t) = Some t1"
    "\<exists>es'. lookup R t1 = Some (Dir es')"
    "lookup (R @ [n]) t1 = Some sub"
    "lookup (R @ [k, n]) t1 = None"
    "\<And>m. m \<noteq> n \<Longrightarrow> lookup (R @ [k, m]) t1 = lookup (R @ [k, m]) t"
    "\<And>m. m \<noteq> n \<Longrightarrow> m \<noteq> k \<Longrightarrow> lookup (R @ [m]) t1 = lookup (R @ [m]) t"
    "lookup (R @ [k]) t1 \<noteq> None"
    "n \<noteq> k"
proof -
  let ?d = "del_at (R @ [k, n]) t"
  have nk: "n \<noteq> k"
  proof
    assume "n = k"
    with dst have "lookup (R @ [k]) t = None" by simp
    then have "lookup ((R @ [k]) @ [n]) t = None" by (simp only: lookup_append option.case)
    with src show False by simp
  qed
  from src have "lookup ((R @ [k]) @ [n]) t \<noteq> None" by simp
  from lookup_snoc_dir [OF this] obtain ks where ks: "lookup (R @ [k]) t = Some (Dir ks)"
    by blast
  from lookup_del_at_above [OF _ dir, of "[k, n]"] obtain es1 where
    d1: "lookup R ?d = Some (Dir es1)" by auto
  from put_at_below_dir [OF d1, of n sub] obtain t1 es' where
    put: "put_at (R @ [n]) sub ?d = Some t1" and r1: "lookup R t1 = Some (Dir es')"
    by blast
  from put_at_lookup_under [OF put, of "[]"] have a: "lookup (R @ [n]) t1 = Some sub"
    by simp
  have b: "lookup (R @ [k, n]) t1 = None"
  proof -
    have "lookup (R @ [k, n]) t1 = lookup (R @ [k, n]) ?d"
      by (rule put_at_lookup_other [OF put]) (use nk in auto)
    also have "\<dots> = None"
      using lookup_del_at_prefix [of "R @ [k, n]" "[]" t] by simp
    finally show ?thesis .
  qed
  have c1: "lookup (R @ [k, m]) t1 = lookup (R @ [k, m]) t" if "m \<noteq> n" for m
  proof -
    have "lookup (R @ [k, m]) t1 = lookup (R @ [k, m]) ?d"
      by (rule put_at_lookup_other [OF put]) (use nk in auto)
    also have "\<dots> = lookup (R @ [k, m]) t"
      by (rule lookup_del_at_other) (use that in auto)
    finally show ?thesis .
  qed
  have c2: "lookup (R @ [m]) t1 = lookup (R @ [m]) t" if "m \<noteq> n" "m \<noteq> k" for m
  proof -
    have "lookup (R @ [m]) t1 = lookup (R @ [m]) ?d"
      by (rule put_at_lookup_other [OF put]) (use that in auto)
    also have "\<dots> = lookup (R @ [m]) t"
      by (rule lookup_del_at_other) (use that in auto)
    finally show ?thesis .
  qed
  have e: "lookup (R @ [k]) t1 \<noteq> None"
  proof -
    have "lookup (R @ [k]) t1 = lookup (R @ [k]) ?d"
      by (rule put_at_lookup_other [OF put]) (use nk in auto)
    moreover from lookup_del_at_above [OF _ ks, of "[n]"]
    have "lookup (R @ [k]) ?d \<noteq> None" by auto
    ultimately show ?thesis by simp
  qed
  from that [OF put _ a b c1 c2 e nk] r1 show thesis by blast
qed

lemma valid_REPO_FOLDER: "valid_name REPO_FOLDER"
  by (simp add: valid_name_def REPO_FOLDER_def slash_def)

lemma rstrip_id:
  assumes "x \<noteq> []" "last x \<noteq> slash"
  shows "rev (dropWhile (\<lambda>c. c = slash) (rev x)) = x"
proof -
  from assms have "hd (rev x) \<noteq> slash" by (simp add: hd_rev)
  with assms(1) have "dropWhile (\<lambda>c. c = slash) (rev x) = rev x"
    by (cases "rev x") auto
  then show ?thesis by simp
qed

text \<open>\<open>shutil.move\<close> of a staged entry into the root directory, at the level of places.\<close>

lemma shutil_move_staged:
  assumes root: "isdir t root_directory" and n: "valid_name n"
    and src: "lookup (locate root_directory @ [REPO_FOLDER, n]) t = Some sub"
    and dst: "lookup (locate root_directory @ [n]) t = None"
  shows "shutil_move t (path_join (path_join root_directory REPO_FOLDER) n) root_directory
           = (case put_at (locate root_directory @ [n]) sub
                    (del_at (locate root_directory @ [REPO_FOLDER, n]) t) of
                None \<Rightarrow> Inl IOError | Some t' \<Rightarrow> Inr t')"
proof -
  let ?repo = "path_join root_directory REPO_FOLDER"
  let ?src = "path_join ?repo n"
  from n have n': "slash \<notin> set n" "n \<noteq> []" by (simp_all add: valid_name_def)
  from path_join_last [OF n', of ?repo] have "?src \<noteq> []" "last ?src \<noteq> slash" by simp_all
  then have strip: "rev (dropWhile (\<lambda>c. c = slash) (rev ?src)) = ?src" by (rule rstrip_id)
  have base: "basename ?src = n" using n'(1) by (rule basename_join)
  have lrepo: "locate ?repo = locate root_directory @ [REPO_FOLDER]"
    by (rule locate_join [OF valid_REPO_FOLDER])
  have lsrc: "locate ?src = locate root_directory @ [REPO_FOLDER, n]"
    using locate_join [OF n, of ?repo] lrepo by simp
  have ldst: "locate (path_join root_directory n) = locate root_directory @ [n]"
    by (rule locate_join [OF n])
  have ssrc: "stat t ?src = Some sub"
    using stat_join [OF n, of t ?repo] lrepo src by simp
  have sdst: "\<not> path_exists t (path_join root_directory n)"
    using stat_join [OF n, of t root_directory] dst by (simp add: path_exists_def)
  from root sdst ssrc show ?thesis
    by (simp add: shutil_move_def Let_def strip base lsrc ldst)
qed

text \<open>The loop over the names of the staging directory.\<close>

lemma move_up_spec:
  assumes "isdir t root_directory" "\<forall>n\<in>set ns. valid_name n" "distinct ns"
    and "\<forall>n\<in>set ns. lookup (locate root_directory @ [REPO_FOLDER, n]) t \<noteq> None"
  shows "\<exists>t'. move_up (path_join root_directory REPO_FOLDER) root_directory ns t = (None, t')
     \<and> isdir t' root_directory
     \<and> (\<forall>n. lookup (locate root_directory @ [n]) t \<noteq> None \<longrightarrow>
             lookup (locate root_directory @ [n]) t' \<noteq> None)
     \<and> (\<forall>n. n \<notin> set ns \<longrightarrow>
             lookup (locate root_directory @ [REPO_FOLDER, n]) t'
               = lookup (locate root_directory @ [REPO_FOLDER, n]) t
           \<and> (n \<noteq> REPO_FOLDER \<longrightarrow>
                lookup (locate root_directory @ [n]) t' = lookup (locate root_directory @ [n]) t))
     \<and> (\<forall>n\<in>set ns.
           (lookup (locate root_directory @ [n]) t = None \<longrightarrow>
              lookup (locate root_directory @ [n]) t'
                = lookup (locate root_directory @ [REPO_FOLDER, n]) t
            \<and> lookup (locate root_directory @ [REPO_FOLDER, n]) t' = None)
         \<and> (lookup (locate root_directory @ [n]) t \<noteq> None \<longrightarrow>
              lookup (locate root_directory @ [REPO_FOLDER, n]) t'
                = lookup (locate root_directory @ [REPO_FOLDER, n]) t
            \<and> (n \<noteq> REPO_FOLDER \<longrightarrow>
                 lookup (locate root_directory @ [n]) t'
                   = lookup (locate root_directory @ [n]) t)))"
  using assms
proof (induction ns arbitrary: t)
  case Nil
  then show ?case by simp
next
  case (Cons n rest)
  let ?R = "locate root_directory"
  let ?k = "REPO_FOLDER"
  let ?repo = "path_join root_directory REPO_FOLDER"
  from Cons.prems have n: "valid_name n" and rest: "\<forall>m\<in>set rest. valid_name m"
    and fresh: "n \<notin> set rest" and dist: "distinct rest"
    and staged_n: "lookup (?R @ [?k, n]) t \<noteq> None"
    and staged: "\<forall>m\<in>set rest. lookup (?R @ [?k, m]) t \<noteq> None"
    by simp_all
  have ex: "path_exists t (path_join root_directory n) \<longleftrightarrow> lookup (?R @ [n]) t \<noteq> None"
    using stat_join [OF n, of t root_directory] by (simp add: path_exists_def)
  show ?case
  proof (cases "lookup (?R @ [n]) t = None")
    case False
    with ex have step: "move_up ?repo root_directory (n # rest) t
        = move_up ?repo root_directory rest t" by simp
    from Cons.IH [OF Cons.prems(1) rest dist staged] obtain t' where
      run: "move_up ?repo root_directory rest t = (None, t')"
      and dir: "isdir t' root_directory"
      and keep: "\<forall>m. lookup (?R @ [m]) t \<noteq> None \<longrightarrow> lookup (?R @ [m]) t' \<noteq> None"
      and frame: "\<forall>m. m \<notin> set rest \<longrightarrow>
          lookup (?R @ [?k, m]) t' = lookup (?R @ [?k, m]) t
        \<and> (m \<noteq> ?k \<longrightarrow> lookup (?R @ [m]) t' = lookup (?R @ [m]) t)"
      and moved: "\<forall>m\<in>set rest.
          (lookup (?R @ [m]) t = None \<longrightarrow>
             lookup (?R @ [m]) t' = lookup (?R @ [?k, m]) t \<and> lookup (?R @ [?k, m]) t' = None)
        \<and> (lookup (?R @ [m]) t \<noteq> None \<longrightarrow>
             lookup (?R @ [?k, m]) t' = lookup (?R @ [?k, m]) t
           \<and> (m \<noteq> ?k \<longrightarrow> lookup (?R @ [m]) t' = lookup (?R @ [m]) t))"
      by blast
    have moved': "\<forall>m\<in>set (n # rest).
          (lookup (?R @ [m]) t = None \<longrightarrow>
             lookup (?R @ [m]) t' = lookup (?R @ [?k, m]) t \<and> lookup (?R @ [?k, m]) t' = None)
        \<and> (lookup (?R @ [m]) t \<noteq> None \<longrightarrow>
             lookup (?R @ [?k, m]) t' = lookup (?R @ [?k, m]) t
           \<and> (m \<noteq> ?k \<longrightarrow> lookup (?R @ [m]) t' = lookup (?R @ [m]) t))"
      using moved frame fresh False by auto
    have frame': "\<forall>m. m \<notin> set (n # rest) \<longrightarrow>
          lookup (?R @ [?k, m]) t' = lookup (?R @ [?k, m]) t
        \<and> (m \<noteq> ?k \<longrightarrow> lookup (?R @ [m]) t' = lookup (?R @ [m]) t)"
      using frame by auto
    from step run have run': "move_up ?repo root_directory (n # rest) t = (None, t')"
      by simp
    show ?thesis
      by (rule exI [of _ t'], intro conjI) (fact run' dir keep frame' moved')+
  next
    case True
    from staged_n obtain sub where sub: "lookup (?R @ [?k, n]) t = Some sub" by blast
    from isdir_lookup [OF Cons.prems(1)] obtain es where
      rne: "root_directory \<noteq> []" and rdir: "lookup ?R t = Some (Dir es)" by blast
    from move_step [OF rdir sub True] obtain t1 where
      put: "put_at (?R @ [n]) sub (del_at (?R @ [?k, n]) t) = Some t1"
      and r1: "\<exists>es'. lookup ?R t1 = Some (Dir es')"
      and a: "lookup (?R @ [n]) t1 = Some sub"
      and b: "lookup (?R @ [?k, n]) t1 = None"
      and c1: "\<And>m. m \<noteq> n \<Longrightarrow> lookup (?R @ [?k, m]) t1 = lookup (?R @ [?k, m]) t"
      and c2: "\<And>m. m \<noteq> n \<Longrightarrow> m \<noteq> ?k \<Longrightarrow> lookup (?R @ [m]) t1 = lookup (?R @ [m]) t"
      and e: "lookup (?R @ [?k]) t1 \<noteq> None"
      and nk: "n \<noteq> ?k"
      by blast
    from shutil_move_staged [OF Cons.prems(1) n sub True] put
    have mv: "shutil_move t (path_join ?repo n) root_directory = Inr t1" by simp
    with ex True have step: "move_up ?repo root_directory (n # rest) t
        = move_up ?repo root_directory rest t1" by simp
    from r1 rne have dir1: "isdir t1 root_directory" by (auto intro: lookup_isdir)
    have staged1: "\<forall>m\<in>set rest. lookup (?R @ [?k, m]) t1 \<noteq> None"
    proof
      fix m assume m: "m \<in> set rest"
      with fresh have "m \<noteq> n" by auto
      from c1 [OF this] staged m show "lookup (?R @ [?k, m]) t1 \<noteq> None" by simp
    qed
    from Cons.IH [OF dir1 rest dist staged1] obtain t' where
      run: "move_up ?repo root_directory rest t1 = (None, t')"
      and dir: "isdir t' root_directory"
      and keep: "\<forall>m. lookup (?R @ [m]) t1 \<noteq> None \<longrightarrow> lookup (?R @ [m]) t' \<noteq> None"
      and frame: "\<forall>m. m \<notin> set rest \<longrightarrow>
          lookup (?R @ [?k, m]) t' = lookup (?R @ [?k, m]) t1
        \<and> (m \<noteq> ?k \<longrightarrow> lookup (?R @ [m]) t' = lookup (?R @ [m]) t1)"
      and moved: "\<forall>m\<in>set rest.
          (lookup (?R @ [m]) t1 = None \<longrightarrow>
             lookup (?R @ [m]) t' = lookup (?R @ [?k, m]) t1 \<and> lookup (?R @ [?k, m]) t' = None)
        \<and> (lookup (?R @ [m]) t1 \<noteq> None \<longrightarrow>
             lookup (?R @ [?k, m]) t' = lookup (?R @ [?k, m]) t1
           \<and> (m \<noteq> ?k \<longrightarrow> lookup (?R @ [m]) t' = lookup (?R @ [m]) t1))"
      by blast
    have same_none: "lookup (?R @ [m]) t1 = None \<longleftrightarrow> lookup (?R @ [m]) t = None"
      if "m \<noteq> n" for m
    proof (cases "m = ?k")
      case True
      from sub have "lookup ((?R @ [?k]) @ [n]) t \<noteq> None" by simp
      from lookup_snoc_dir [OF this] have "lookup (?R @ [?k]) t \<noteq> None" by auto
      with e True show ?thesis by auto
    next
      case False
      with that c2 show ?thesis by simp
    qed
    have keep': "\<forall>m. lookup (?R @ [m]) t \<noteq> None \<longrightarrow> lookup (?R @ [m]) t' \<noteq> None"
    proof (intro allI impI)
      fix m assume m: "lookup (?R @ [m]) t \<noteq> None"
      with True have "m \<noteq> n" by auto
      with same_none m have "lookup (?R @ [m]) t1 \<noteq> None" by simp
      with keep show "lookup (?R @ [m]) t' \<noteq> None" by simp
    qed
    have frame': "\<forall>m. m \<notin> set (n # rest) \<longrightarrow>
          lookup (?R @ [?k, m]) t' = lookup (?R @ [?k, m]) t
        \<and> (m \<noteq> ?k \<longrightarrow> lookup (?R @ [m]) t' = lookup (?R @ [m]) t)"
      using frame c1 c2 by auto
    have moved_n: "lookup (?R @ [n]) t' = lookup (?R @ [?k, n]) t
        \<and> lookup (?R @ [?k, n]) t' = None"
      using frame fresh nk a b sub by auto
    have moved_rest: "(lookup (?R @ [m]) t = None \<longrightarrow>
             lookup (?R @ [m]) t' = lookup (?R @ [?k, m]) t \<and> lookup (?R @ [?k, m]) t' = None)
        \<and> (lookup (?R @ [m]) t \<noteq> None \<longrightarrow>
             lookup (?R @ [?k, m]) t' = lookup (?R @ [?k, m]) t
           \<and> (m \<noteq> ?k \<longrightarrow> lookup (?R @ [m]) t' = lookup (?R @ [m]) t))"
      if "m \<in> set rest" for m
    proof -
      from that fresh have mn: "m \<noteq> n" by auto
      from moved that same_none [OF mn] c1 [OF mn] c2 [OF mn] show ?thesis by auto
    qed
    have moved': "\<forall>m\<in>set (n # rest).
          (lookup (?R @ [m]) t = None \<longrightarrow>
             lookup (?R @ [m]) t' = lookup (?R @ [?k, m]) t \<and> lookup (?R @ [?k, m]) t' = None)
        \<and> (lookup (?R @ [m]) t \<noteq> None \<longrightarrow>
             lookup (?R @ [?k, m]) t' = lookup (?R @ [?k, m]) t
           \<and> (m \<noteq> ?k \<longrightarrow> lookup (?R @ [m]) t' = lookup (?R @ [m]) t))"
      using moved_n moved_rest True by auto
    from step run have run': "move_up ?repo root_directory (n # rest) t = (None, t')"
      by simp
    show ?thesis
      by (rule exI [of _ t'], intro conjI) (fact run' dir keep' frame' moved')+
  qed
qed


lemma listdir_staged:
  assumes "listdir t (path_join root_directory REPO_FOLDER) = Inr names"
  shows "distinct names"
    and "\<forall>n\<in>set names. lookup (locate root_directory @ [REPO_FOLDER, n]) t \<noteq> None"
proof -
  let ?repo = "path_join root_directory REPO_FOLDER"
  from assms obtain es where st: "stat t ?repo = Some (Dir es)"
    and names: "names = remdups (map fst es)"
    by (auto simp: listdir_def split: option.splits node.splits)
  from names show "distinct names" by simp
  from st stat_join [OF valid_REPO_FOLDER, of t root_directory]
  have "lookup (locate root_directory @ [REPO_FOLDER]) t = Some (Dir es)" by simp
  then have "lookup ((locate root_directory @ [REPO_FOLDER]) @ [n]) t = map_of es n" for n
    by (simp only: lookup_append) (simp split: option.splits)
  moreover have "map_of es n \<noteq> None" if "n \<in> set names" for n
    using that names by (auto simp: map_of_eq_None_iff)
  ultimately show "\<forall>n\<in>set names. lookup (locate root_directory @ [REPO_FOLDER, n]) t \<noteq> None"
    by simp
qed

text \<open>
  An installer-only archive, on any host.  Suppose the archive has been extracted into
  the staging directory \<open>repo\<close> of the root directory and no components file is there,
  and the staging directory lists the names \<open>names\<close>.  Then \<open>UnpackTar\<close> returns: when
  the original location has no URL scheme and a components file is a sibling of it,
  what the host's \<open>urljoin\<close> makes of \<open>file://\<close> and the path of that sibling;
  otherwise \<open>None\<close>.  In either case every listed name that did not exist in the root directory has been moved there
  with all it holds, and is gone from \<open>repo\<close>; and every listed name that existed in the
  root directory has been skipped: it is still in \<open>repo\<close> as it was, and what the root
  directory has under that name is untouched (for the name \<open>repo\<close> itself, it still
  exists).
\<close>

lemma UnpackTar_installer_only_moves:
  assumes stage: "UnpackTar_stage h download_path root_directory s = (None, s1)"
    and shape: "\<not> isfile (fs s1)
                    (path_join (path_join root_directory REPO_FOLDER) COMPONENTS_FILE)"
    and root: "isdir (fs s1) root_directory"
    and names: "listdir (fs s1) (path_join root_directory REPO_FOLDER) = Inr names"
    and valid: "\<forall>n\<in>set names. valid_name n"
  shows "\<exists>s2.
      UnpackTar h download_path tar_location root_directory s
        = (Inr (if url_scheme h tar_location = []
                   \<and> isfile (fs s1) (path_join (dirname tar_location) COMPONENTS_FILE)
                then Some (urljoin h ''file://''
                             (path_join (dirname tar_location) COMPONENTS_FILE))
                else None), s2)
    \<and> (\<forall>n\<in>set names.
          (\<not> path_exists (fs s1) (path_join root_directory n) \<longrightarrow>
             stat (fs s2) (path_join root_directory n)
               = stat (fs s1) (path_join (path_join root_directory REPO_FOLDER) n)
           \<and> \<not> path_exists (fs s2) (path_join (path_join root_directory REPO_FOLDER) n))
        \<and> (path_exists (fs s1) (path_join root_directory n) \<longrightarrow>
             stat (fs s2) (path_join (path_join root_directory REPO_FOLDER) n)
               = stat (fs s1) (path_join (path_join root_directory REPO_FOLDER) n)
           \<and> path_exists (fs s2) (path_join root_directory n)
           \<and> (n \<noteq> REPO_FOLDER \<longrightarrow>
                stat (fs s2) (path_join root_directory n)
                  = stat (fs s1) (path_join root_directory n))))"
proof -
  let ?R = "locate root_directory"
  let ?repo = "path_join root_directory REPO_FOLDER"
  let ?url = "if url_scheme h tar_location = []
                 \<and> isfile (fs s1) (path_join (dirname tar_location) COMPONENTS_FILE)
              then Some (urljoin h ''file://''
                           (path_join (dirname tar_location) COMPONENTS_FILE))
              else None"
  note staged = listdir_staged [OF names]
  from move_up_spec [OF root valid staged] obtain t' where
    run: "move_up ?repo root_directory names (fs s1) = (None, t')"
    and moved: "\<forall>n\<in>set names.
        (lookup (?R @ [n]) (fs s1) = None \<longrightarrow>
           lookup (?R @ [n]) t' = lookup (?R @ [REPO_FOLDER, n]) (fs s1)
         \<and> lookup (?R @ [REPO_FOLDER, n]) t' = None)
      \<and> (lookup (?R @ [n]) (fs s1) \<noteq> None \<longrightarrow>
           lookup (?R @ [REPO_FOLDER, n]) t' = lookup (?R @ [REPO_FOLDER, n]) (fs s1)
         \<and> (n \<noteq> REPO_FOLDER \<longrightarrow> lookup (?R @ [n]) t' = lookup (?R @ [n]) (fs s1)))"
    and keep: "\<forall>n. lookup (?R @ [n]) (fs s1) \<noteq> None \<longrightarrow> lookup (?R @ [n]) t' \<noteq> None"
    by blast
  have shape_eq: "UnpackTar_shape h download_path tar_location root_directory s1
      = (Inr ?url, s1\<lparr>fs := t'\<rparr>)"
    using shape names run by (simp add: UnpackTar_shape_def Let_def)
  with stage have result: "UnpackTar h download_path tar_location root_directory s
      = (Inr ?url, s1\<lparr>fs := t'\<rparr>)"
    by (simp add: UnpackTar_def)
  have lrepo: "locate ?repo = ?R @ [REPO_FOLDER]"
    by (rule locate_join [OF valid_REPO_FOLDER])
  have entry: "(\<not> path_exists (fs s1) (path_join root_directory n) \<longrightarrow>
             stat t' (path_join root_directory n) = stat (fs s1) (path_join ?repo n)
           \<and> \<not> path_exists t' (path_join ?repo n))
        \<and> (path_exists (fs s1) (path_join root_directory n) \<longrightarrow>
             stat t' (path_join ?repo n) = stat (fs s1) (path_join ?repo n)
           \<and> path_exists t' (path_join root_directory n)
           \<and> (n \<noteq> REPO_FOLDER \<longrightarrow>
                stat t' (path_join root_directory n)
                  = stat (fs s1) (path_join root_directory n)))"
    if n: "n \<in> set names" for n
  proof -
    from valid n have v: "valid_name n" by simp
    have r: "stat u (path_join root_directory n) = lookup (?R @ [n]) u" for u
      by (rule stat_join [OF v])
    have p: "stat u (path_join ?repo n) = lookup (?R @ [REPO_FOLDER, n]) u" for u
      using stat_join [OF v, of u ?repo] lrepo by simp
    from moved n keep show ?thesis
      by (simp add: path_exists_def r p)
  qed
  show ?thesis
    by (rule exI [of _ "s1\<lparr>fs := t'\<rparr>"]) (simp add: result entry)
qed

text \<open>
  What \<open>urljoin\<close> makes of \<open>file://\<close> and an absolute path, of one leading slash and
  without \<open>#\<close> and \<open>?\<close>: \<open>file://\<close> followed by the path.
\<close>

lemma urlsplit_absolute:
  assumes "take 1 q \<noteq> ''/''" "CHR ''#'' \<notin> set q" "CHR ''?'' \<notin> set q"
  shows "urlsplit (slash # q) scheme = Some (scheme, [], slash # q, [], [])"
proof -
  let ?p = "slash # q"
  have rest: "urlsplit_rest scheme ?p = Some (scheme, [], ?p, [], [])"
    using assms by (cases q) (simp_all add: urlsplit_rest_def slash_def)
  show ?thesis
  proof (cases "str_find CHR '':'' ?p")
    case None
    with rest show ?thesis by (simp add: urlsplit_def)
  next
    case (Some i)
    then have i: "i = Suc (length (takeWhile (\<lambda>x. x \<noteq> CHR '':'') q))"
      by (simp add: str_find_def slash_def split: if_splits)
    then have t: "take i ?p = slash # take (i - 1) q" by simp
    have "take i ?p \<noteq> ''http''"
      unfolding t by (simp add: slash_def)
    moreover have "\<not> list_all (\<lambda>c. c \<in> set scheme_chars) (take i ?p)"
      unfolding t by (simp add: slash_def scheme_chars_def)
    ultimately show ?thesis
      using Some rest by (simp add: urlsplit_def)
  qed
qed

lemma py_urljoin_absolute:
  assumes "take 1 q \<noteq> ''/''" "CHR ''#'' \<notin> set q" "CHR ''?'' \<notin> set q"
  shows "py_urljoin ''file://'' (slash # q) = Some (''file://'' @ slash # q)"
proof -
  have base: "urlparse ''file://'' [] = Some (''file'', [], [], [], [], [])"
    by code_simp
  have lists: "''file'' \<notin> set uses_params" "''file'' \<in> set uses_relative"
    "''file'' \<in> set uses_netloc"
    by code_simp+
  from urlsplit_absolute [OF assms, of "''file''"] lists(1)
  have url: "urlparse (slash # q) ''file'' = Some (''file'', [], slash # q, [], [], [])"
    by (simp add: urlparse_def)
  from assms(1) have two: "take 2 (slash # q) \<noteq> ''//''"
    by (cases q) (simp_all add: slash_def)
  have "urlunparse (''file'', [], slash # q, [], [], []) = ''file://'' @ slash # q"
    using lists(3) two by (simp add: urlunparse_def urlunsplit_def slash_def)
  with base url lists(2,3) show ?thesis
    by (simp add: py_urljoin_def slash_def)
qed

text \<open>
  C3.  \<open>UnpackTar\<close> on the concrete host, for an installer-only archive at the relative
  location \<open>bundle.tar\<close> with a components file \<open>components-2.json\<close> beside it.  The
  location has no URL scheme and the sibling is a file, the case in which \<open>UnpackTar\<close>
  is to return a \<open>file://\<close> URL to that sibling.  It returns \<open>file:///components-2.json\<close>,
  which is what \<open>urljoin\<close> makes of \<open>file://\<close> and the relative path: the URL of the
  absolute path \<open>/components-2.json\<close>.  Nothing exists at that path, and the sibling is
  where it was.  The rest is as specified: the extracted directory has been moved
  up from \<open>repo\<close> into the root directory, and the extracted \<open>README\<close>, whose name
  existed in the root directory, has been skipped.
\<close>

theorem UnpackTar_relative_location:
  "url_scheme example_host ''bundle.tar'' = []
 \<and> path_join (dirname ''bundle.tar'') COMPONENTS_FILE = ''components-2.json''
 \<and> isfile (fs bundle_state) ''components-2.json''
 \<and> fst (UnpackTar example_host ''bundle.tar'' ''bundle.tar'' ''work'' bundle_state)
     = Inr (Some ''file:///components-2.json'')
 \<and> \<not> path_exists
       (fs (snd (UnpackTar example_host ''bundle.tar'' ''bundle.tar'' ''work'' bundle_state)))
       ''/components-2.json''
 \<and> isfile
       (fs (snd (UnpackTar example_host ''bundle.tar'' ''bundle.tar'' ''work'' bundle_state)))
       ''components-2.json''
 \<and> stat (fs (snd (UnpackTar example_host ''bundle.tar'' ''bundle.tar'' ''work'' bundle_state)))
      ''work/google-cloud-sdk'' = Some (Dir [(''install.sh'', File ''#!/bin/sh'')])
 \<and> \<not> path_exists
       (fs (snd (UnpackTar example_host ''bundle.tar'' ''bundle.tar'' ''work'' bundle_state)))
       ''work/repo/google-cloud-sdk''
 \<and> stat (fs (snd (UnpackTar example_host ''bundle.tar'' ''bundle.tar'' ''work'' bundle_state)))
      ''work/repo/README'' = Some (File ''new'')
 \<and> stat (fs (snd (UnpackTar example_host ''bundle.tar'' ''bundle.tar'' ''work'' bundle_state)))
      ''work/README'' = Some (File ''mine'')"
  by code_simp
section \<open>Results about the equality and the hash of ImmutableConfig\<close>

subsection \<open>Strings are read back without ambiguity\<close>

lemma json_escape_form:
  "(json_escape c = [c] \<and> c \<noteq> backslash \<and> c \<noteq> dquote)
 \<or> (\<exists>x. json_escape c = [backslash, x] \<and> x \<noteq> CHR ''u'' \<and> c = short_escape x)
 \<or> json_escape c = [backslash, CHR ''u'', CHR ''0'', CHR ''0'',
                     hex_digit (of_char c div 16), hex_digit (of_char c mod 16)]"
proof -
  let ?n = "of_char c :: nat"
  consider "?n = 0x22" | "?n = 0x5C" | "?n = 8" | "?n = 12" | "?n = 10" | "?n = 13" | "?n = 9"
    | "?n \<notin> {0x22, 0x5C, 8, 12, 10, 13, 9}" "32 \<le> ?n \<and> ?n \<le> 126"
    | "?n \<notin> {0x22, 0x5C, 8, 12, 10, 13, 9}" "\<not> (32 \<le> ?n \<and> ?n \<le> 126)"
    by blast
  then show ?thesis
  proof cases
    case 1
    then have "c = CHR 0x22" by (intro of_char_eqI [where ?'a = nat]) simp
    then show ?thesis
      by (simp add: json_escape_def short_escape_def dquote_def backslash_def)
  next
    case 2
    then have "c = CHR 0x5C" by (intro of_char_eqI [where ?'a = nat]) simp
    then show ?thesis
      by (simp add: json_escape_def short_escape_def dquote_def backslash_def)
  next
    case 3
    then have "c = CHR 0x08" by (intro of_char_eqI [where ?'a = nat]) simp
    then show ?thesis
      by (simp add: json_escape_def short_escape_def dquote_def backslash_def)
  next
    case 4
    then have "c = CHR 0x0C" by (intro of_char_eqI [where ?'a = nat]) simp
    then show ?thesis
      by (simp add: json_escape_def short_escape_def dquote_def backslash_def)
  next
    case 5
    then have "c = CHR 0x0A" by (intro of_char_eqI [where ?'a = nat]) simp
    then show ?thesis
      by (simp add: json_escape_def short_escape_def dquote_def backslash_def)
  next
    case 6
    then have "c = CHR 0x0D" by (intro of_char_eqI [where ?'a = nat]) simp
    then show ?thesis
      by (simp add: json_escape_def short_escape_def dquote_def backslash_def)
  next
    case 7
    then have "c = CHR 0x09" by (intro of_char_eqI [where ?'a = nat]) simp
    then show ?thesis
      by (simp add: json_escape_def short_escape_def dquote_def backslash_def)
  next
    case 8
    then have "json_escape c = [c]" by (simp add: json_escape_def Let_def)
    moreover from 8 have "c \<noteq> backslash" "c \<noteq> dquote"
      by (auto simp: backslash_def dquote_def)
    ultimately show ?thesis by simp
  next
    case 9
    then show ?thesis by (auto simp: json_escape_def Let_def)
  qed
qed

lemma hex_digit_inj:
  assumes "hex_digit a = hex_digit b" "a < 16" "b < 16"
  shows "a = b"
proof -
  have "distinct ''0123456789abcdef''" by simp
  from nth_eq_iff_index_eq [OF this, of a b] assms show ?thesis
    by (simp add: hex_digit_def)
qed

lemma json_escape_inj:
  assumes eq: "json_escape c @ X = json_escape d @ Y"
  shows "c = d \<and> X = Y"
proof -
  let ?u = "\<lambda>c. [backslash, CHR ''u'', CHR ''0'', CHR ''0'',
                  hex_digit (of_char c div 16), hex_digit (of_char c mod 16 :: nat)]"
  have unicode: "c = d \<and> X = Y" if c: "json_escape c = ?u c" and d: "json_escape d = ?u d"
  proof -
    from eq c d have h: "hex_digit (of_char c div 16) = hex_digit (of_char d div 16 :: nat)"
      "hex_digit (of_char c mod 16) = hex_digit (of_char d mod 16 :: nat)" and xy: "X = Y"
      by simp_all
    have lt: "(of_char e :: nat) div 16 < 16" "(of_char e :: nat) mod 16 < 16" for e :: char
    proof -
      have "(of_char e :: nat) < 256" by simp
      then show "(of_char e :: nat) div 16 < 16" by arith
      show "(of_char e :: nat) mod 16 < 16" by simp
    qed
    from hex_digit_inj [OF h(1) lt(1) lt(1)] hex_digit_inj [OF h(2) lt(2) lt(2)]
    have "(of_char c :: nat) = of_char d"
      by (metis div_mult_mod_eq)
    then have "c = d" by simp
    with xy show ?thesis by simp
  qed
  from json_escape_form [of c] show ?thesis
  proof (elim disjE exE conjE)
    assume c: "json_escape c = [c]" "c \<noteq> backslash" "c \<noteq> dquote"
    from json_escape_form [of d] show ?thesis
    proof (elim disjE exE conjE)
      assume "json_escape d = [d]"
      with eq c show ?thesis by simp
    next
      fix y assume "json_escape d = [backslash, y]"
      with eq c show ?thesis by simp
    next
      assume "json_escape d = ?u d"
      with eq c show ?thesis by simp
    qed
  next
    fix x assume c: "json_escape c = [backslash, x]" "x \<noteq> CHR ''u''" "c = short_escape x"
    from json_escape_form [of d] show ?thesis
    proof (elim disjE exE conjE)
      assume "json_escape d = [d]" "d \<noteq> backslash"
      with eq c show ?thesis by simp
    next
      fix y assume "json_escape d = [backslash, y]" "d = short_escape y"
      with eq c show ?thesis by simp
    next
      assume "json_escape d = ?u d"
      with eq c show ?thesis by simp
    qed
  next
    assume c: "json_escape c = ?u c"
    from json_escape_form [of d] show ?thesis
    proof (elim disjE exE conjE)
      assume "json_escape d = [d]" "d \<noteq> backslash"
      with eq c show ?thesis by simp
    next
      fix y assume "json_escape d = [backslash, y]" "y \<noteq> CHR ''u''"
      with eq c show ?thesis by simp
    next
      assume "json_escape d = ?u d"
      with c show ?thesis by (rule unicode)
    qed
  qed
qed

lemma json_escape_head: "\<exists>a as. json_escape c = a # as \<and> a \<noteq> dquote"
proof -
  have b: "backslash \<noteq> dquote"
    by (simp add: backslash_def dquote_def)
  from json_escape_form [of c] show ?thesis
  proof (elim disjE exE conjE)
    assume "json_escape c = [c]" "c \<noteq> dquote"
    then show ?thesis by simp
  next
    fix x assume "json_escape c = [backslash, x]"
    with b show ?thesis by simp
  next
    assume "json_escape c = [backslash, CHR ''u'', CHR ''0'', CHR ''0'',
              hex_digit (of_char c div 16), hex_digit (of_char c mod 16)]"
    with b show ?thesis by simp
  qed
qed

lemma json_body_inj:
  "concat (map json_escape s) @ dquote # r = concat (map json_escape t) @ dquote # r' \<Longrightarrow>
   s = t \<and> r = r'"
proof (induction s arbitrary: t)
  case Nil
  show ?case
  proof (cases t)
    case Nil
    with Nil.prems show ?thesis by simp
  next
    case (Cons d t')
    from json_escape_head [of d] obtain a as where "json_escape d = a # as" "a \<noteq> dquote"
      by blast
    with Nil.prems Cons show ?thesis by simp
  qed
next
  case (Cons c s')
  show ?case
  proof (cases t)
    case Nil
    from json_escape_head [of c] obtain a as where "json_escape c = a # as" "a \<noteq> dquote"
      by blast
    with Cons.prems Nil show ?thesis by simp
  next
    case (Cons d t')
    with Cons.prems
    have "json_escape c @ (concat (map json_escape s') @ dquote # r)
        = json_escape d @ (concat (map json_escape t') @ dquote # r')"
      by simp
    from json_escape_inj [OF this] Cons.IH [of t'] Cons show ?thesis by simp
  qed
qed

lemma json_string_inj:
  assumes "json_string s @ r = json_string t @ r'"
  shows "s = t \<and> r = r'"
proof -
  from assms
  have "concat (map json_escape s) @ dquote # r = concat (map json_escape t) @ dquote # r'"
    by (simp add: json_string_def)
  then show ?thesis by (rule json_body_inj)
qed

lemma self_delimiting_strings: "self_delimiting (range json_string)"
  unfolding self_delimiting_def
proof (intro ballI allI impI)
  fix x y r s
  assume "x \<in> range json_string" "y \<in> range json_string" and eq: "x @ r = y @ s"
  then obtain a b where x: "x = json_string a" and y: "y = json_string b"
    by blast
  from eq json_string_inj [of a r b s] x y show "x = y \<and> r = s"
    by simp
qed

subsection \<open>A serialized dictionary is read back without ambiguity\<close>

lemma json_items_join: "str_join '', '' (map json_item xs) @ ''}'' = json_items xs"
  by (induction xs rule: json_items.induct) simp_all

lemma json_object_items: "json_object xs = CHR ''{'' # json_items (sort_key fst xs)"
  by (simp add: json_object_def json_items_join)

lemma json_items_Cons:
  "json_items (kj # rest)
     = json_string (fst kj) @ '': '' @ snd kj
       @ (if rest = [] then ''}'' else '', '' @ json_items rest)"
  by (cases rest) (simp_all add: json_item_def)

lemma json_items_Cons_head: "\<exists>t. json_items (kj # rest) = dquote # t"
  by (simp add: json_items_Cons json_string_def)

lemma json_items_inj:
  assumes V: "self_delimiting V"
  shows "snd ` set xs \<subseteq> V \<Longrightarrow> snd ` set ys \<subseteq> V \<Longrightarrow>
         json_items xs @ r = json_items ys @ r' \<Longrightarrow> xs = ys \<and> r = r'"
proof (induction xs arbitrary: ys)
  case Nil
  show ?case
  proof (cases ys)
    case Nil
    with Nil.prems show ?thesis by simp
  next
    case (Cons kj rest)
    from json_items_Cons_head [of kj rest] obtain t where "json_items (kj # rest) = dquote # t" ..
    with Nil.prems Cons show ?thesis by (simp add: dquote_def)
  qed
next
  case (Cons kj rest)
  show ?case
  proof (cases ys)
    case Nil
    from json_items_Cons_head [of kj rest] obtain t where "json_items (kj # rest) = dquote # t" ..
    with Cons.prems Nil show ?thesis by (simp add: dquote_def)
  next
    case ys: (Cons kj' rest')
    let ?T = "if rest = [] then ''}'' else '', '' @ json_items rest"
    let ?T' = "if rest' = [] then ''}'' else '', '' @ json_items rest'"
    from Cons.prems(3) ys
    have "json_string (fst kj) @ ('': '' @ snd kj @ ?T @ r)
        = json_string (fst kj') @ ('': '' @ snd kj' @ ?T' @ r')"
      by (simp only: json_items_Cons append_assoc)
    from json_string_inj [OF this]
    have k: "fst kj = fst kj'" and rest: "snd kj @ (?T @ r) = snd kj' @ (?T' @ r')"
      by simp_all
    from Cons.prems(1) have "snd kj \<in> V" by simp
    moreover from Cons.prems(2) ys have "snd kj' \<in> V" by simp
    ultimately have j: "snd kj = snd kj'" and tails: "?T @ r = ?T' @ r'"
      using V rest unfolding self_delimiting_def by blast+
    from k j have kj: "kj = kj'" by (simp add: prod_eq_iff)
    show ?thesis
    proof (cases "rest = []")
      case True
      show ?thesis
      proof (cases "rest' = []")
        case True
        with \<open>rest = []\<close> tails kj ys show ?thesis by simp
      next
        case False
        with \<open>rest = []\<close> tails show ?thesis by simp
      qed
    next
      case False
      show ?thesis
      proof (cases "rest' = []")
        case True
        with \<open>rest \<noteq> []\<close> tails show ?thesis by simp
      next
        case nonempty: False
        with False tails have "json_items rest @ r = json_items rest' @ r'" by simp
        moreover from Cons.prems(1) have "snd ` set rest \<subseteq> V" by simp
        moreover from Cons.prems(2) ys have "snd ` set rest' \<subseteq> V" by simp
        ultimately have "rest = rest' \<and> r = r'" by (rule Cons.IH [rotated 2])
        with kj ys show ?thesis by simp
      qed
    qed
  qed
qed

lemma json_object_inj:
  assumes "self_delimiting V" "snd ` set xs \<subseteq> V" "snd ` set ys \<subseteq> V"
    and "json_object xs @ r = json_object ys @ r'"
  shows "sort_key fst xs = sort_key fst ys \<and> r = r'"
proof (rule json_items_inj [OF assms(1)])
  from assms(2) show "snd ` set (sort_key fst xs) \<subseteq> V" by simp
  from assms(3) show "snd ` set (sort_key fst ys) \<subseteq> V" by simp
  from assms(4) show "json_items (sort_key fst xs) @ r = json_items (sort_key fst ys) @ r'"
    by (simp add: json_object_items)
qed

lemma json_value_kind:
  "json_value DNone = CHR ''n'' # ''ull''"
  "\<exists>t. json_value (DStr s) = dquote # t"
  "\<exists>t. json_value (DMap m) = CHR ''{'' # t"
  by (simp_all add: json_string_def json_object_items)

lemma string_items: "snd ` set (map (\<lambda>(k, v). (k, json_string v)) m) \<subseteq> range json_string"
  by auto

lemma json_value_inj_rest:
  assumes "json_value v @ r = json_value v' @ r'"
  shows "json_value v = json_value v' \<and> r = r' \<and> dval_content v = dval_content v'"
proof -
  have q: "dquote \<noteq> CHR ''n''" "dquote \<noteq> CHR ''{''"
    by (simp_all add: dquote_def)
  show ?thesis
  proof (cases v)
    case DNone
    show ?thesis
    proof (cases v')
      case DNone
      with \<open>v = DNone\<close> assms show ?thesis by simp
    next
      case (DStr s')
      from json_value_kind(2) [of s'] obtain t where "json_value (DStr s') = dquote # t" ..
      with DNone DStr assms q show ?thesis by simp
    next
      case (DMap m')
      from json_value_kind(3) [of m'] obtain t where "json_value (DMap m') = CHR ''{'' # t" ..
      with DNone DMap assms show ?thesis by simp
    qed
  next
    case (DStr s)
    from json_value_kind(2) [of s] obtain t where t: "json_value (DStr s) = dquote # t" ..
    show ?thesis
    proof (cases v')
      case DNone
      with DStr t assms q show ?thesis by simp
    next
      case s': (DStr s')
      with DStr assms have "json_string s @ r = json_string s' @ r'" by simp
      from json_string_inj [OF this] DStr s' show ?thesis by simp
    next
      case (DMap m')
      from json_value_kind(3) [of m'] obtain t' where "json_value (DMap m') = CHR ''{'' # t'" ..
      with DStr DMap t assms q show ?thesis by simp
    qed
  next
    case (DMap m)
    from json_value_kind(3) [of m] obtain t where t: "json_value (DMap m) = CHR ''{'' # t" ..
    show ?thesis
    proof (cases v')
      case DNone
      with DMap t assms show ?thesis by simp
    next
      case (DStr s')
      from json_value_kind(2) [of s'] obtain t' where "json_value (DStr s') = dquote # t'" ..
      with DMap DStr t assms q show ?thesis by simp
    next
      case m': (DMap m')
      let ?f = "\<lambda>(k, v). (k, json_string v)"
      from DMap m' assms have "json_object (map ?f m) @ r = json_object (map ?f m') @ r'"
        by simp
      from json_object_inj [OF self_delimiting_strings string_items string_items this]
      have sorted: "sort_key fst (map ?f m) = sort_key fst (map ?f m')" and r: "r = r'"
        by simp_all
      from sorted have same: "json_value (DMap m) = json_value (DMap m')"
        by (simp add: json_object_def)
      from sorted have "set (sort_key fst (map ?f m)) = set (sort_key fst (map ?f m'))"
        by simp
      then have img: "?f ` set m = ?f ` set m'" by simp
      have "inj (?f :: string \<times> string \<Rightarrow> string \<times> string)"
      proof (rule injI)
        fix x y :: "string \<times> string"
        assume "?f x = ?f y"
        then have "fst x = fst y" "json_string (snd x) @ [] = json_string (snd y) @ []"
          by (simp_all add: case_prod_beta)
        with json_string_inj [of "snd x" "[]" "snd y" "[]"] show "x = y"
          by (simp add: prod_eq_iff)
      qed
      from img inj_image_eq_iff [OF this] have "set m = set m'" by simp
      with same r DMap m' show ?thesis by (simp add: dval_content_def)
    qed
  qed
qed

lemma self_delimiting_values: "self_delimiting (range json_value)"
  unfolding self_delimiting_def
proof (intro ballI allI impI)
  fix x y r s
  assume "x \<in> range json_value" "y \<in> range json_value" and eq: "x @ r = y @ s"
  then obtain a b where x: "x = json_value a" and y: "y = json_value b"
    by blast
  from eq json_value_inj_rest [of a r b s] x y show "x = y \<and> r = s"
    by simp
qed

lemma value_items: "snd ` set (map (\<lambda>(k, v). (k, json_value v)) d) \<subseteq> range json_value"
  by auto

text \<open>Equal serializations: the dictionaries hold the same.\<close>

lemma json_dumps_inj:
  assumes "json_dumps d = json_dumps d'"
  shows "dict_content d = dict_content d'"
proof -
  let ?g = "\<lambda>(k, v). (k, json_value v)"
  from assms have "json_object (map ?g d) @ [] = json_object (map ?g d') @ []"
    by (simp add: json_dumps_def)
  from json_object_inj [OF self_delimiting_values value_items value_items this]
  have "set (sort_key fst (map ?g d)) = set (sort_key fst (map ?g d'))"
    by simp
  then have img: "?g ` set d = ?g ` set d'" by simp
  have sub: "dict_content a \<subseteq> dict_content b" if ab: "?g ` set a \<subseteq> ?g ` set b" for a b
  proof
    fix x assume "x \<in> dict_content a"
    then obtain k v where kv: "(k, v) \<in> set a" and x: "x = (k, dval_content v)"
      by (auto simp: dict_content_def)
    from kv ab have "?g (k, v) \<in> ?g ` set b" by blast
    then obtain k' v' where kv': "(k', v') \<in> set b" and "k = k'" "json_value v = json_value v'"
      by auto
    with json_value_inj_rest [of v "[]" v' "[]"] have "dval_content v = dval_content v'"
      by simp
    with kv' \<open>k = k'\<close> x show "x \<in> dict_content b"
      by (force simp: dict_content_def)
  qed
  from img sub [of d d'] sub [of d' d] show ?thesis by blast
qed

subsection \<open>The order of the items does not matter\<close>

lemma sort_key_unique:
  assumes "distinct (map fst xs)" "distinct (map fst ys)" "set xs = set ys"
  shows "sort_key fst xs = sort_key fst ys"
proof (rule map_sorted_distinct_set_unique [of fst])
  from assms(1) have dx: "distinct xs" "inj_on fst (set xs)"
    by (simp_all add: distinct_map)
  from assms(2) have dy: "distinct ys" "inj_on fst (set ys)"
    by (simp_all add: distinct_map)
  from dx(2) assms(3)
  show "inj_on fst (set (sort_key fst xs) \<union> set (sort_key fst ys))" by simp
  show "sorted (map fst (sort_key fst xs))" by (rule sorted_sort_key)
  show "sorted (map fst (sort_key fst ys))" by (rule sorted_sort_key)
  from dx show "distinct (map fst (sort_key fst xs))" by (simp add: distinct_map)
  from dy show "distinct (map fst (sort_key fst ys))" by (simp add: distinct_map)
  from assms(3) show "set (sort_key fst xs) = set (sort_key fst ys)" by simp
qed

lemma json_value_content:
  assumes "dval_content v = dval_content v'"
    and "case v of DMap m \<Rightarrow> distinct (map fst m) | _ \<Rightarrow> True"
    and "case v' of DMap m \<Rightarrow> distinct (map fst m) | _ \<Rightarrow> True"
  shows "json_value v = json_value v'"
proof (cases v)
  case (DMap m)
  with assms(1) obtain m' where m': "v' = DMap m'" and same: "set m = set m'"
    by (cases v') (simp_all add: dval_content_def)
  let ?f = "\<lambda>(k, v). (k, json_string v)"
  have keys: "map fst (map ?f l) = map fst l" for l :: "(string \<times> string) list"
    by (simp add: case_prod_beta comp_def)
  from assms(2) DMap have "distinct (map fst (map ?f m))" by (simp only: keys) simp
  moreover from assms(3) m' have "distinct (map fst (map ?f m'))" by (simp only: keys) simp
  moreover from same have "set (map ?f m) = set (map ?f m')" by simp
  ultimately have "sort_key fst (map ?f m) = sort_key fst (map ?f m')"
    by (rule sort_key_unique)
  with DMap m' show ?thesis by (simp add: json_object_def)
next
  case DNone
  with assms(1) show ?thesis by (cases v') (simp_all add: dval_content_def)
next
  case (DStr s)
  with assms(1) show ?thesis by (cases v') (simp_all add: dval_content_def)
qed

text \<open>Dictionaries that hold the same, each key once: equal serializations.\<close>

lemma json_dumps_content:
  assumes wf: "dict_wellformed d" "dict_wellformed d'"
    and same: "dict_content d = dict_content d'"
  shows "json_dumps d = json_dumps d'"
proof -
  let ?g = "\<lambda>(k, v). (k, json_value v)"
  have keys: "map fst (map ?g l) = map fst l" for l :: "(string \<times> dval) list"
    by (simp add: case_prod_beta comp_def)
  have entry: "case v of DMap m \<Rightarrow> distinct (map fst m) | _ \<Rightarrow> True"
    if "dict_wellformed a" "(k, v) \<in> set a" for a k v
    using that by (auto simp: dict_wellformed_def list_all_iff)
  have sub: "?g ` set a \<subseteq> ?g ` set b"
    if ab: "dict_content a = dict_content b" and wa: "dict_wellformed a"
      and wb: "dict_wellformed b" for a b
  proof
    fix x assume "x \<in> ?g ` set a"
    then obtain k v where kv: "(k, v) \<in> set a" and x: "x = (k, json_value v)"
      by auto
    from kv have "(k, dval_content v) \<in> dict_content a"
      by (force simp: dict_content_def)
    with ab obtain k' v' where kv': "(k', v') \<in> set b" and "k = k'"
      "dval_content v = dval_content v'"
      by (auto simp: dict_content_def)
    with json_value_content [OF _ entry [OF wa kv] entry [OF wb kv']]
    have "json_value v = json_value v'" by simp
    with kv' \<open>k = k'\<close> x show "x \<in> ?g ` set b" by force
  qed
  from sub [OF same wf] sub [OF same [symmetric] wf(2,1)]
  have "set (map ?g d) = set (map ?g d')" by auto
  moreover from wf(1) have "distinct (map fst (map ?g d))"
    by (simp only: keys) (simp add: dict_wellformed_def)
  moreover from wf(2) have "distinct (map fst (map ?g d'))"
    by (simp only: keys) (simp add: dict_wellformed_def)
  ultimately have "sort_key fst (map ?g d) = sort_key fst (map ?g d')"
    by (intro sort_key_unique)
  then show ?thesis by (simp add: json_dumps_def json_object_def)
qed

text \<open>
  C4.  Comparing an \<open>ImmutableConfig\<close> with another one gives true exactly when their
  keys, the JSON serializations of their dictionaries with the keys in sorted order,
  are the same string; comparing it with any other object gives false.  Two that are
  equal have the same hash, whatever the digest function.  The serialization depends
  on what the dictionaries hold and not on the order of their items: two whose
  dictionaries, and the mappings in them, have each key once and hold the same items
  are equal; and two whose dictionaries do not hold the same, as when one value
  differs, are not equal.
\<close>

theorem ImmutableConfig_equality:
  "(ImmutableConfig_eq st a (AnImmutableConfig b)
      = (json_dumps (snapshot st a) = json_dumps (snapshot st b)))
 \<and> \<not> ImmutableConfig_eq st a AnotherObject
 \<and> (ImmutableConfig_eq st a (AnImmutableConfig b) \<longrightarrow>
      ImmutableConfig_hash md5 st a = ImmutableConfig_hash md5 st b)
 \<and> (dict_wellformed (snapshot st a) \<and> dict_wellformed (snapshot st b)
      \<and> dict_content (snapshot st a) = dict_content (snapshot st b) \<longrightarrow>
      ImmutableConfig_eq st a (AnImmutableConfig b))
 \<and> (dict_content (snapshot st a) \<noteq> dict_content (snapshot st b) \<longrightarrow>
      \<not> ImmutableConfig_eq st a (AnImmutableConfig b))"
proof (intro conjI impI)
  show "ImmutableConfig_eq st a (AnImmutableConfig b)
      = (json_dumps (snapshot st a) = json_dumps (snapshot st b))"
    by (simp add: ImmutableConfig_eq_def ImmutableConfig_Key_def)
  show "\<not> ImmutableConfig_eq st a AnotherObject"
    by (simp add: ImmutableConfig_eq_def)
  show "ImmutableConfig_hash md5 st a = ImmutableConfig_hash md5 st b"
    if "ImmutableConfig_eq st a (AnImmutableConfig b)"
    using that by (simp add: ImmutableConfig_eq_def ImmutableConfig_hash_def)
  show "ImmutableConfig_eq st a (AnImmutableConfig b)"
    if "dict_wellformed (snapshot st a) \<and> dict_wellformed (snapshot st b)
      \<and> dict_content (snapshot st a) = dict_content (snapshot st b)"
  proof -
    from that have "json_dumps (snapshot st a) = json_dumps (snapshot st b)"
      by (intro json_dumps_content) simp_all
    then show ?thesis
      by (simp add: ImmutableConfig_eq_def ImmutableConfig_Key_def)
  qed
  show "\<not> ImmutableConfig_eq st a (AnImmutableConfig b)"
    if "dict_content (snapshot st a) \<noteq> dict_content (snapshot st b)"
  proof
    assume "ImmutableConfig_eq st a (AnImmutableConfig b)"
    then have "json_dumps (snapshot st a) = json_dumps (snapshot st b)"
      by (simp add: ImmutableConfig_eq_def ImmutableConfig_Key_def)
    from json_dumps_inj [OF this] that show False by simp
  qed
qed

theorem ImmutableConfig_equality_witness:
  "ImmutableConfig_eq reordered_store 0 (AnImmutableConfig 1)
 \<and> ImmutableConfig_hash length reordered_store 0 = ImmutableConfig_hash length reordered_store 1
 \<and> \<not> ImmutableConfig_eq reordered_store 0 (AnImmutableConfig 2)
 \<and> \<not> ImmutableConfig_eq refrozen_store 3 (AnImmutableConfig 6)"
proof -
  have same: "dict_wellformed (snapshot reordered_store 0)
      \<and> dict_wellformed (snapshot reordered_store 1)
      \<and> dict_content (snapshot reordered_store 0) = dict_content (snapshot reordered_store 1)"
    by code_simp
  have differs: "dict_content (snapshot reordered_store 0)
      \<noteq> dict_content (snapshot reordered_store 2)"
    by code_simp
  have changed: "dict_content (snapshot refrozen_store 3)
      \<noteq> dict_content (snapshot refrozen_store 6)"
    by code_simp
  note A = ImmutableConfig_equality [of reordered_store 0 1 length]
  note B = ImmutableConfig_equality [of reordered_store 0 2 length]
  note C = ImmutableConfig_equality [of refrozen_store 3 6 length]
  note eq = A [THEN conjunct2, THEN conjunct2, THEN conjunct2, THEN conjunct1, THEN mp, OF same]
  note hash = A [THEN conjunct2, THEN conjunct2, THEN conjunct1, THEN mp, OF eq]
  note ne = B [THEN conjunct2, THEN conjunct2, THEN conjunct2, THEN conjunct2, THEN mp,
      OF differs]
  note re = C [THEN conjunct2, THEN conjunct2, THEN conjunct2, THEN conjunct2, THEN mp,
      OF changed]
  from eq hash ne re show ?thesis by (intro conjI)
qed
section \<open>Results about PrepareEnviron\<close>

lemma str_join_prefix: "prefix x (str_join sep (x # xs))"
  by (cases xs) simp_all

text \<open>
  C5.  On a host that has a \<open>PATH\<close> and a Python executable, \<open>PrepareEnviron\<close> returns
  an environment for every user environment, configuration name and SDK directory; its
  \<open>PATH\<close> starts with \<open>os.path.join(sdk_dir, 'bin')\<close>; without a user \<open>PATH\<close> it is the
  binary directory followed by the host's \<open>PATH\<close>; and when the user's \<open>PATH\<close> contains
  the host's as a substring it is the binary directory followed by the user's \<open>PATH\<close>
  alone, the host's \<open>PATH\<close> not being appended again.
\<close>

theorem PrepareEnviron_PATH:
  assumes host: "os_env ''PATH'' = Some host_path" and py: "truthy (sys_executable h)"
  shows "\<exists>environ.
           PrepareEnviron h os_env user_environ config_name sdk_dir = Inr environ
         \<and> (\<exists>p. environ ''PATH'' = Some p \<and> prefix (path_join sdk_dir BIN_FOLDER) p)
         \<and> (user_environ ''PATH'' = None \<longrightarrow>
              environ ''PATH''
                = Some (path_join sdk_dir BIN_FOLDER @ pathsep @ host_path))
         \<and> (\<forall>up. user_environ ''PATH'' = Some up \<and> sublist host_path up \<longrightarrow>
              environ ''PATH'' = Some (path_join sdk_dir BIN_FOLDER @ pathsep @ up))
         \<and> (\<forall>up. user_environ ''PATH'' = Some up \<and> \<not> sublist host_path up \<longrightarrow>
              environ ''PATH''
                = Some (path_join sdk_dir BIN_FOLDER @ pathsep @ up @ pathsep @ host_path))"
proof -
  have names: "CONFIG_ENV \<noteq> ''PATH''" "PYTHON_ENV \<noteq> ''PATH''" "PYTHON_PATH \<noteq> ''PATH''"
    by (simp_all add: CONFIG_ENV_def PYTHON_ENV_def PYTHON_PATH_def)
  show ?thesis
  proof (cases "user_environ ''PATH''")
    case None
    with host py names show ?thesis
      by (auto simp: PrepareEnviron_def Let_def split: option.splits)
  next
    case (Some up)
    with host py names show ?thesis
      by (cases "sublist host_path up")
        (auto simp: PrepareEnviron_def Let_def split: option.splits)
  qed
qed

theorem PrepareEnviron_PATH_witness:
  "\<exists>environ.
     PrepareEnviron example_host (Map.empty(''PATH'' \<mapsto> ''/usr/bin''))
       (Map.empty(''PATH'' \<mapsto> ''/usr/bin:/opt'')) ''configxxxxxxxx'' ''root/google-cloud-sdk''
       = Inr environ
     \<and> environ ''PATH'' = Some ''root/google-cloud-sdk/bin:/usr/bin:/opt''"
proof -
  have sub: "sublist ''/usr/bin'' ''/usr/bin:/opt''"
    by (rule prefix_imp_sublist) simp
  have bin: "path_join ''root/google-cloud-sdk'' BIN_FOLDER @ pathsep
               = ''root/google-cloud-sdk/bin:''"
    by (simp add: path_join_def BIN_FOLDER_def pathsep_def slash_def)
  have py: "truthy (sys_executable example_host)"
    by (simp add: example_host_def)
  from PrepareEnviron_PATH [of "Map.empty(''PATH'' \<mapsto> ''/usr/bin'')" "''/usr/bin''"
      example_host "Map.empty(''PATH'' \<mapsto> ''/usr/bin:/opt'')"
      "''configxxxxxxxx''" "''root/google-cloud-sdk''", OF _ py]
  obtain environ where
    r: "PrepareEnviron example_host (Map.empty(''PATH'' \<mapsto> ''/usr/bin''))
          (Map.empty(''PATH'' \<mapsto> ''/usr/bin:/opt'')) ''configxxxxxxxx''
          ''root/google-cloud-sdk'' = Inr environ"
    and p: "\<forall>up. (Map.empty(''PATH'' \<mapsto> ''/usr/bin:/opt'')) ''PATH'' = Some up
                 \<and> sublist ''/usr/bin'' up \<longrightarrow>
              environ ''PATH''
                = Some (path_join ''root/google-cloud-sdk'' BIN_FOLDER @ pathsep @ up)"
    by auto
  from p sub have "environ ''PATH''
      = Some (path_join ''root/google-cloud-sdk'' BIN_FOLDER @ pathsep @ ''/usr/bin:/opt'')"
    by simp
  with r bin show ?thesis by simp
qed

section \<open>Results about DownloadTar\<close>

lemma basename_no_slash: "slash \<notin> set (basename p)"
proof -
  have "\<forall>c \<in> set (takeWhile (\<lambda>c. c \<noteq> slash) (rev p)). c \<noteq> slash"
    by (auto dest: set_takeWhileD)
  then show ?thesis by (auto simp: basename_def)
qed

lemma download_directory_shape:
  "path_join d DOWNLOAD_FOLDER \<noteq> [] \<and> last (path_join d DOWNLOAD_FOLDER) \<noteq> slash"
  by (rule path_join_last) (simp_all add: DOWNLOAD_FOLDER_def slash_def)

text \<open>A file in a directory makes the directory exist.\<close>

lemma isfile_join_exists:
  assumes "isfile t (path_join d n)" "slash \<notin> set n" "d \<noteq> []" "last d \<noteq> slash"
  shows "path_exists t d"
proof -
  from assms(1) have "lookup (locate (path_join d n)) t \<noteq> None"
    by (auto simp: isfile_def stat_def split: option.splits if_splits)
  with locate_join_any [OF assms(2), of d] have "lookup (locate d) t \<noteq> None"
    by (auto simp: lookup_append split: option.splits if_splits)
  with assms(3,4) show ?thesis
    by (auto simp: path_exists_def stat_def split: option.splits node.splits)
qed

text \<open>A directory that was just made holds no file.\<close>

lemma makedirs_no_file:
  assumes mk: "makedirs t d = Inr t'" and "d \<noteq> []" "last d \<noteq> slash" "slash \<notin> set n"
  shows "\<not> isfile t' (path_join d n)"
proof -
  from mk have ne: "\<not> path_exists t d"
    and m: "mkdirs_at (locate d) t = Some t'"
    by (auto simp: makedirs_def split: if_splits option.splits)
  from ne assms(2,3) have "lookup (locate d) t = None"
    by (auto simp: path_exists_def stat_def split: option.splits node.splits)
  from mkdirs_at_fresh [OF m this] have fresh: "lookup (locate d) t' = Some (Dir [])" .
  show ?thesis
  proof (cases "valid_name n")
    case True
    from stat_join [OF True, of t' d] fresh show ?thesis
      by (simp add: isfile_def lookup_append)
  next
    case False
    with assms(4) locate_join_any [of n d]
    have "locate (path_join d n) = locate d" by (auto simp: valid_name_def)
    with fresh show ?thesis
      by (auto simp: isfile_def stat_def split: option.splits node.splits)
  qed
qed

text \<open>
  C6.  For a location with a URL scheme, let the download path be the last segment of
  the URL's path inside the \<open>downloads\<close> subdirectory.  If a file is there already,
  \<open>DownloadTar\<close> returns that path and changes nothing: no fetch is made.  Hence,
  whenever a first call returns a path, a second call with the same location returns the
  same path and changes nothing; and if the file was not there before the first call,
  the two calls together have made exactly one fetch, that of the location.
\<close>

theorem DownloadTar_fetches_once:
  assumes remote: "url_scheme h tar_location \<noteq> []"
  shows "(isfile (fs s)
            (path_join (path_join download_directory DOWNLOAD_FOLDER)
               (basename (url_path h tar_location))) \<longrightarrow>
          DownloadTar h tar_location download_directory s
            = (Inr (path_join (path_join download_directory DOWNLOAD_FOLDER)
                      (basename (url_path h tar_location))), s))
       \<and> (\<forall>p s1. DownloadTar h tar_location download_directory s = (Inr p, s1) \<longrightarrow>
            DownloadTar h tar_location download_directory s1 = (Inr p, s1)
          \<and> (\<not> isfile (fs s)
                 (path_join (path_join download_directory DOWNLOAD_FOLDER)
                    (basename (url_path h tar_location))) \<longrightarrow>
               fetched s1 = fetched s @ [tar_location]))"
proof -
  let ?D = "path_join download_directory DOWNLOAD_FOLDER"
  let ?n = "basename (url_path h tar_location)"
  let ?dp = "path_join ?D ?n"
  have n: "slash \<notin> set ?n" by (rule basename_no_slash)
  have D: "?D \<noteq> []" "last ?D \<noteq> slash"
    using download_directory_shape [of download_directory] by simp_all
  have cached: "DownloadTar h tar_location download_directory u = (Inr ?dp, u)"
    if "isfile (fs u) ?dp" for u
  proof -
    from isfile_join_exists [OF that n D] have "path_exists (fs u) ?D" .
    with that remote show ?thesis by (simp add: DownloadTar_def Let_def)
  qed
  have twice: "DownloadTar h tar_location download_directory s1 = (Inr p, s1)
      \<and> (\<not> isfile (fs s) ?dp \<longrightarrow> fetched s1 = fetched s @ [tar_location])"
    if run: "DownloadTar h tar_location download_directory s = (Inr p, s1)" for p s1
  proof (cases "isfile (fs s) ?dp")
    case True
    from cached [OF True] run True show ?thesis by simp
  next
    case False
    obtain t1 where t1: "(if \<not> path_exists (fs s) ?D then makedirs (fs s) ?D else Inr (fs s))
        = Inr t1"
      using run remote
      by (cases "if \<not> path_exists (fs s) ?D then makedirs (fs s) ?D else Inr (fs s)")
        (simp_all add: DownloadTar_def Let_def)
    have nofile: "\<not> isfile t1 ?dp"
    proof (cases "path_exists (fs s) ?D")
      case True
      with t1 False show ?thesis by simp
    next
      case False
      with t1 have "makedirs (fs s) ?D = Inr t1" by simp
      from makedirs_no_file [OF this D n] show ?thesis .
    qed
    let ?s2 = "s\<lparr>fs := t1, fetched := fetched (s\<lparr>fs := t1\<rparr>) @ [tar_location]\<rparr>"
    from run remote t1 nofile
    have body: "(case urlopen h tar_location of
                   None \<Rightarrow> (Inl (RaiseTarError ''downloading'' tar_location), ?s2)
                 | Some body \<Rightarrow>
                     (case write_file t1 ?dp body of
                        Inl e \<Rightarrow> (Inl e, ?s2)
                      | Inr t2 \<Rightarrow> (Inr ?dp, ?s2\<lparr>fs := t2\<rparr>))) = (Inr p, s1)"
      by (simp add: DownloadTar_def Let_def)
    then obtain body where u: "urlopen h tar_location = Some body"
      by (cases "urlopen h tar_location") simp_all
    with body obtain t2 where w: "write_file t1 ?dp body = Inr t2"
      by (cases "write_file t1 ?dp body") simp_all
    from body u w have p: "p = ?dp"
      and s1: "s1 = s\<lparr>fs := t2, fetched := fetched s @ [tar_location]\<rparr>"
      by auto
    from write_file_isfile [OF w] s1 have "isfile (fs s1) ?dp" by simp
    from cached [OF this] p s1 False show ?thesis by simp
  qed
  from cached [of s] twice show ?thesis by blast
qed

theorem DownloadTar_fetches_once_witness:
  "fst (DownloadTar example_host ''http://host/sdk.tar'' ''work'' example_state)
     = Inr ''work/downloads/sdk.tar''
 \<and> DownloadTar example_host ''http://host/sdk.tar'' ''work''
      (snd (DownloadTar example_host ''http://host/sdk.tar'' ''work'' example_state))
     = (Inr ''work/downloads/sdk.tar'',
        snd (DownloadTar example_host ''http://host/sdk.tar'' ''work'' example_state))
 \<and> fetched (snd (DownloadTar example_host ''http://host/sdk.tar'' ''work'' example_state))
     = [''http://host/sdk.tar'']"
proof -
  let ?run = "DownloadTar example_host ''http://host/sdk.tar'' ''work'' example_state"
  have remote: "url_scheme example_host ''http://host/sdk.tar'' \<noteq> []"
    by code_simp
  have first: "fst ?run = Inr ''work/downloads/sdk.tar''"
    by code_simp
  then have run: "?run = (Inr ''work/downloads/sdk.tar'', snd ?run)"
    by (simp add: prod_eq_iff)
  have absent: "\<not> isfile (fs example_state)
      (path_join (path_join ''work'' DOWNLOAD_FOLDER)
         (basename (url_path example_host ''http://host/sdk.tar'')))"
    by code_simp
  have none: "fetched example_state = []"
    by code_simp
  note both = DownloadTar_fetches_once [OF remote, of example_state "''work''"]
  note second = both [THEN conjunct2, THEN spec, THEN spec, THEN mp, OF run]
  from second [THEN conjunct1] second [THEN conjunct2, THEN mp, OF absent] first
  show ?thesis by (simp only: none append_Nil simp_thms)
qed

section \<open>Results about freezing a configuration\<close>

lemma update_absent: "k \<notin> fst ` set d \<Longrightarrow> AList.update k v d = d @ [(k, v)]"
  by (induction d) auto

lemma dict_update_distinct:
  "distinct (map fst (d @ other)) \<Longrightarrow> dict_update d other = d @ other"
  unfolding dict_update_def
proof (induction other arbitrary: d)
  case Nil
  then show ?case by simp
next
  case (Cons x other)
  obtain k v where x: "x = (k, v)" by (cases x)
  from Cons.prems x have "k \<notin> fst ` set d" by auto
  then have u: "AList.update k v d = d @ [(k, v)]" by (rule update_absent)
  from Cons.prems x have "distinct (map fst ((d @ [(k, v)]) @ other))" by simp
  from Cons.IH [OF this] u x show ?case by simp
qed

text \<open>What the frozen copy shows depends on its own \<open>__dict__\<close> and on the dictionary
  objects it refers to, and on nothing else.\<close>

lemma snapshot_cong:
  assumes "attrs st' self = attrs st self"
    and "\<forall>a\<in>refs (the_dict st self). mappings st' a = mappings st a"
  shows "snapshot st' self = snapshot st self"
proof -
  from assms(1) have d: "the_dict st' self = the_dict st self" by (simp add: the_dict_def)
  have "read_val st' v = read_val st v" if "(k, v) \<in> set (the_dict st self)" for k v
  proof (cases v)
    case (PRef a)
    with that have "a \<in> refs (the_dict st self)" by (force simp: refs_def)
    with assms(2) PRef show ?thesis by (simp add: read_val_def)
  qed (simp_all add: read_val_def)
  then show ?thesis by (auto simp: snapshot_def d)
qed

text \<open>One statement that changes the original keeps apart what the copy refers to.\<close>

lemma mutate_keeps_frozen:
  assumes own: "attrs st frozen = d" and maps: "\<forall>a\<in>F. mappings st a = M a"
    and apart: "refs (the_dict st config) \<inter> F = {}"
    and old: "\<forall>a\<in>F. a < next_id st" and other: "config \<noteq> frozen"
  shows "attrs (snd (mutate config m st)) frozen = d
       \<and> (\<forall>a\<in>F. mappings (snd (mutate config m st)) a = M a)
       \<and> refs (the_dict (snd (mutate config m st)) config) \<inter> F = {}
       \<and> (\<forall>a\<in>F. a < next_id (snd (mutate config m st)))"
proof -
  have update: ?thesis
    if run: "mutate config m st = (r, st')"
      and st': "st' = st1\<lparr>attrs := (attrs st1)(config \<mapsto> new)\<rparr>"
      and fr: "next_id st \<le> next_id st1" "attrs st1 = attrs st"
        "\<And>a. a < next_id st \<Longrightarrow> mappings st1 a = mappings st a"
      and new: "refs new \<subseteq> refs (the_dict st config) \<union> {next_id st ..< next_id st1}"
    for r st' st1 new
  proof -
    have "refs new \<inter> F = {}" using new apart old by fastforce
    then show ?thesis
      using run st' fr own maps old other by (auto simp: the_dict_def)
  qed
  have same: ?thesis if "snd (mutate config m st) = st"
    using that assms by simp
  have entry: ?thesis
    if run: "snd (mutate config m st) = st\<lparr>mappings := (mappings st)(a \<mapsto> new)\<rparr>"
      and a: "map_of (the_dict st config) field = Some (PRef a)"
    for a new field
  proof -
    from refs_map_of [OF a] apart have "a \<notin> F" by auto
    with run assms show ?thesis by (auto simp: the_dict_def)
  qed
  show ?thesis
  proof (cases m)
    case (Assign name val)
    show ?thesis
    proof (cases "name \<in> set (map fst (the_dict st config))")
      case False
      with Assign show ?thesis by (intro same) (simp add: Config_setattr_def)
    next
      case True
      obtain v st1 where mat: "materialize val st = (v, st1)" by (cases "materialize val st")
      note mf = materialize_frame [OF mat]
      from mf(2) have same_dict: "the_dict st1 config = the_dict st config"
        by (simp add: the_dict_def)
      have "mutate config m st
          = (Inr (), st1\<lparr>attrs := (attrs st1)(config \<mapsto>
                AList.update name v (the_dict st1 config))\<rparr>)"
        using Assign True mat by (simp add: Config_setattr_def)
      then show ?thesis
      proof (rule update [OF _ refl mf(1,2,3)])
        from refs_update [of name v "the_dict st1 config"] mf(5) same_dict
        show "refs (AList.update name v (the_dict st1 config))
            \<subseteq> refs (the_dict st config) \<union> {next_id st ..< next_id st1}"
          by (auto split: pyval.splits)
      qed
    qed
  next
    case (SetEntry field key val)
    show ?thesis
    proof (cases "map_of (the_dict st config) field")
      case None
      with SetEntry show ?thesis by (intro same) (simp add: Config_setentry_def)
    next
      case (Some p)
      show ?thesis
      proof (cases p)
        case (PRef a)
        with Some SetEntry show ?thesis
          by (intro entry [of a _ field]) (simp_all add: Config_setentry_def)
      next
        case PNone
        with Some SetEntry show ?thesis by (intro same) (simp add: Config_setentry_def)
      next
        case (PStr x)
        with Some SetEntry show ?thesis by (intro same) (simp add: Config_setentry_def)
      qed
    qed
  next
    case (DelEntry field key)
    show ?thesis
    proof (cases "map_of (the_dict st config) field")
      case None
      with DelEntry show ?thesis by (intro same) (simp add: Config_delentry_def)
    next
      case (Some p)
      show ?thesis
      proof (cases p)
        case (PRef a)
        let ?m = "case mappings st a of None \<Rightarrow> [] | Some m \<Rightarrow> m"
        show ?thesis
        proof (cases "key \<in> set (map fst ?m)")
          case True
          with PRef Some DelEntry show ?thesis
            by (intro entry [of a _ field]) (simp_all add: Config_delentry_def Let_def)
        next
          case False
          with PRef Some DelEntry show ?thesis
            by (intro same) (simp add: Config_delentry_def Let_def)
        qed
      next
        case PNone
        with Some DelEntry show ?thesis by (intro same) (simp add: Config_delentry_def)
      next
        case (PStr x)
        with Some DelEntry show ?thesis by (intro same) (simp add: Config_delentry_def)
      qed
    qed
  next
    case (Load doc)
    obtain r st' where run: "LoadFile config doc st = (r, st')"
      by (cases "LoadFile config doc st")
    show ?thesis
    proof (cases r)
      case (Inl e)
      have "st' = st"
      proof (cases doc)
        case (Document cfg)
        show ?thesis
        proof (cases "ValidateLockedEnvironmentVariables cfg")
          case None
          with run Inl Document have "UpdateDict config cfg st = (Inl e, st')"
            by (simp add: LoadFile_def)
          from UpdateDict_raises [OF this] show ?thesis by simp
        next
          case (Some e')
          with run Document show ?thesis by (simp add: LoadFile_def)
        qed
      qed (use run in \<open>simp_all add: LoadFile_def\<close>)
      with run Load show ?thesis by (intro same) simp
    next
      case (Inr u)
      with run obtain cfg where doc: "doc = Document cfg"
        by (cases doc) (simp_all add: LoadFile_def)
      with run Inr have "UpdateDict config cfg st = (Inr u, st')"
        by (cases "ValidateLockedEnvironmentVariables cfg") (simp_all add: LoadFile_def)
      then obtain c st1 where dc: "deepcopy cfg st = (c, st1)"
        and st': "st' = st1\<lparr>attrs := (attrs st1)(config \<mapsto> dict_update (the_dict st1 config) c)\<rparr>"
        by (rule UpdateDict_ok)
      from deepcopy_frame [OF dc] have fr: "next_id st \<le> next_id st1" "attrs st1 = attrs st"
        "\<And>a. a < next_id st \<Longrightarrow> mappings st1 a = mappings st a"
        "refs c \<subseteq> {next_id st ..< next_id st1}"
        by simp_all
      from fr(2) have same_dict: "the_dict st1 config = the_dict st config"
        by (simp add: the_dict_def)
      from run Load Inr have "mutate config m st = (Inr u, st')" by simp
      then show ?thesis
      proof (rule update [OF _ st' fr(1,2,3)])
        from refs_dict_update [of "the_dict st1 config" c] fr(4) same_dict
        show "refs (dict_update (the_dict st1 config) c)
            \<subseteq> refs (the_dict st config) \<union> {next_id st ..< next_id st1}"
          by auto
      qed
    qed
  qed
qed

lemma mutations_keep_frozen:
  assumes "attrs st frozen = d" "\<forall>a\<in>F. mappings st a = M a"
    "refs (the_dict st config) \<inter> F = {}" "\<forall>a\<in>F. a < next_id st" "config \<noteq> frozen"
  shows "attrs (mutations config ms st) frozen = d
       \<and> (\<forall>a\<in>F. mappings (mutations config ms st) a = M a)"
  using assms
proof (induction ms arbitrary: st)
  case Nil
  then show ?case by simp
next
  case (Cons m ms)
  from mutate_keeps_frozen [OF Cons.prems, of m]
  have "attrs (snd (mutate config m st)) frozen = d"
    "\<forall>a\<in>F. mappings (snd (mutate config m st)) a = M a"
    "refs (the_dict (snd (mutate config m st)) config) \<inter> F = {}"
    "\<forall>a\<in>F. a < next_id (snd (mutate config m st))"
    by simp_all
  from Cons.IH [OF this Cons.prems(5)] show ?case by simp
qed

text \<open>
  C7.  Let \<open>frozen\<close> be the \<open>ImmutableConfig\<close> made from a \<open>Config\<close> (an object of the
  store, holding references to dictionary objects of the store).  Whatever statements
  then change the original, in any number and order (assigning an attribute a new
  value, setting or deleting an entry of one of its mappings such as
  \<open>environment_variables\<close> or \<open>properties\<close>, loading a file), every value read through
  \<open>frozen\<close> stays what it was when \<open>frozen\<close> was made; and that is what the original
  read then.
\<close>

theorem frozen_copy_is_independent:
  assumes config: "config < next_id st"
    and held: "\<forall>a\<in>refs (the_dict st config). a < next_id st"
    and freeze: "ImmutableConfig_init config st = (Inr frozen, st1)"
  shows "(distinct (map fst (the_dict st config)) \<longrightarrow>
            snapshot st1 frozen = snapshot st config)
       \<and> (\<forall>ms. snapshot (mutations config ms st1) frozen = snapshot st1 frozen)"
proof -
  let ?n = "next_id st"
  let ?st0 = "st\<lparr>attrs := (attrs st)(?n \<mapsto> []), next_id := Suc ?n\<rparr>"
  from freeze have frozen: "frozen = ?n"
    and upd: "UpdateDict ?n (snapshot ?st0 config) ?st0 = (Inr (), st1)"
    by (auto simp: ImmutableConfig_init_def new_object_def split: prod.splits sum.splits)
  from upd obtain c st1' where dc: "deepcopy (snapshot ?st0 config) ?st0 = (c, st1')"
    and st1: "st1 = st1'\<lparr>attrs := (attrs st1')(?n \<mapsto> dict_update (the_dict st1' ?n) c)\<rparr>"
    by (rule UpdateDict_ok)
  from deepcopy_frame [OF dc] have fr: "Suc ?n \<le> next_id st1'" "attrs st1' = attrs ?st0"
    "\<And>a. a < Suc ?n \<Longrightarrow> mappings st1' a = mappings st a"
    "map (\<lambda>(k, v). (k, read_val st1' v)) c = snapshot ?st0 config"
    "refs c \<subseteq> {Suc ?n ..< next_id st1'}"
    by simp_all
  from config have ne: "config \<noteq> ?n" by simp
  have snap0: "snapshot ?st0 config = snapshot st config"
    by (rule snapshot_cong) (use ne in simp_all)
  from fr(2) have own: "the_dict st1 ?n = dict_update [] c"
    by (simp add: st1 the_dict_def)
  from fr(2) ne have orig: "the_dict st1 config = the_dict st config"
    by (simp add: st1 the_dict_def)
  let ?F = "refs (the_dict st1 ?n)"
  from refs_dict_update [of "[]" c] fr(5) own
  have F: "?F \<subseteq> {Suc ?n ..< next_id st1'}" by auto
  have first: "snapshot st1 frozen = snapshot st config"
    if "distinct (map fst (the_dict st config))"
  proof -
    have "map fst c = map fst (map (\<lambda>(k, v). (k, read_val st1' v)) c)"
      by (simp add: case_prod_beta comp_def)
    also have "\<dots> = map fst (snapshot st config)"
      using fr(4) snap0 by simp
    also have "\<dots> = map fst (the_dict st config)"
      by (simp add: snapshot_def case_prod_beta comp_def)
    finally have "map fst c = map fst (the_dict st config)" .
    with that dict_update_distinct [of "[]" c] own have "the_dict st1 ?n = c" by simp
    then have "snapshot st1 ?n = map (\<lambda>(k, v). (k, read_val st1 v)) c"
      by (simp add: snapshot_def)
    also have "\<dots> = map (\<lambda>(k, v). (k, read_val st1' v)) c"
      by (simp add: st1 read_val_attrs)
    finally show ?thesis using fr(4) snap0 frozen by simp
  qed
  have later: "snapshot (mutations config ms st1) frozen = snapshot st1 frozen" for ms
  proof -
    have apart: "refs (the_dict st1 config) \<inter> ?F = {}"
      using held F orig by fastforce
    have old: "\<forall>a\<in>?F. a < next_id st1"
      using F by (auto simp: st1)
    from mutations_keep_frozen [of st1 ?n "attrs st1 ?n" ?F "mappings st1" config ms,
        OF refl _ apart old ne]
    have "attrs (mutations config ms st1) ?n = attrs st1 ?n"
      "\<forall>a\<in>?F. mappings (mutations config ms st1) a = mappings st1 a"
      by simp_all
    then have "snapshot (mutations config ms st1) ?n = snapshot st1 ?n"
      by (rule snapshot_cong)
    with frozen show ?thesis by simp
  qed
  from first later show ?thesis by blast
qed

theorem frozen_copy_is_independent_witness:
  "fst (Config_init None [] empty_store) = Inr 0
 \<and> fst (ImmutableConfig_init 0 (snd (Config_init None [] empty_store))) = Inr 3
 \<and> snapshot
      (mutations 0
         [Assign ''project'' (DStr ''foo''),
          SetEntry ''environment_variables'' ''CLOUDSDK_CORE_DISABLE_PROMPTS'' ''0'']
         (snd (ImmutableConfig_init 0 (snd (Config_init None [] empty_store))))) 3
     = DEFAULT_CONFIG
 \<and> snapshot
      (mutations 0
         [Assign ''project'' (DStr ''foo''),
          SetEntry ''environment_variables'' ''CLOUDSDK_CORE_DISABLE_PROMPTS'' ''0'']
         (snd (ImmutableConfig_init 0 (snd (Config_init None [] empty_store))))) 0
     = [(''environment_variables'', DMap [(''CLOUDSDK_CORE_DISABLE_PROMPTS'', ''0'')]),
        (''service_account_email'', DNone),
        (''service_account_keyfile'', DNone),
        (''project'', DStr ''foo''),
        (''properties'', DMap [])]"
proof -
  let ?st = "snd (Config_init None [] empty_store)"
  let ?st1 = "snd (ImmutableConfig_init 0 ?st)"
  let ?ms = "[Assign ''project'' (DStr ''foo''),
              SetEntry ''environment_variables'' ''CLOUDSDK_CORE_DISABLE_PROMPTS'' ''0'']"
  have made: "fst (Config_init None [] empty_store) = Inr 0"
    by code_simp
  have frz: "fst (ImmutableConfig_init 0 ?st) = Inr 3"
    by code_simp
  then have freeze: "ImmutableConfig_init 0 ?st = (Inr 3, ?st1)"
    by (simp add: prod_eq_iff)
  have config: "0 < next_id ?st"
    by code_simp
  have dict: "the_dict ?st 0
      = [(''environment_variables'', PRef 1), (''service_account_email'', PNone),
         (''service_account_keyfile'', PNone), (''project'', PNone),
         (''properties'', PRef 2)]"
    by code_simp
  have next3: "next_id ?st = 3"
    by code_simp
  have held: "\<forall>a\<in>refs (the_dict ?st 0). a < next_id ?st"
    by (auto simp: dict next3 refs_def)
  have keys: "distinct (map fst (the_dict ?st 0))"
    by (simp add: dict)
  have before: "snapshot ?st 0 = DEFAULT_CONFIG"
    by code_simp
  have changed: "snapshot (mutations 0 ?ms ?st1) 0
      = [(''environment_variables'', DMap [(''CLOUDSDK_CORE_DISABLE_PROMPTS'', ''0'')]),
         (''service_account_email'', DNone),
         (''service_account_keyfile'', DNone),
         (''project'', DStr ''foo''),
         (''properties'', DMap [])]"
    by code_simp
  note both = frozen_copy_is_independent [OF config held freeze]
  from both [THEN conjunct1, THEN mp, OF keys] both [THEN conjunct2, THEN spec, of ?ms]
  have "snapshot (mutations 0 ?ms ?st1) 3 = snapshot ?st 0" by simp
  with before have "snapshot (mutations 0 ?ms ?st1) 3 = DEFAULT_CONFIG" by simp
  with made frz changed show ?thesis by (intro conjI)
qed

section \<open>Results about Init and Destroy\<close>

text \<open>
  C8.  While an installation record is active, that is while the driver-location
  variable is set, a call of \<open>Init\<close> fails with the error that the source raises for a
  driver that is already initialized (\<open>error.InitError\<close>, the driver-state error of the
  specification), and the state is as before: the environment with the driver-location
  variable, the file system with the installed files, and the record of fetches.  On
  Windows the refusal of the platform comes first, with the same effect on the state.
\<close>

theorem Init_already_initialized:
  assumes "os_environ s DRIVER_LOCATION_ENV = Some location"
  shows "Init h tar_location additional_components root_directory s
           = (Inl (InitError (if is_windows h then WindowsHost else AlreadyInitialized)), s)"
  using assms by (simp add: Init_def)

theorem Init_already_initialized_witness:
  "fst (Init example_host (Some ''sdk.tar'') NoComponents (Some ''work'') example_state)
     = Inr ()
 \<and> Init example_host None NoComponents None
      (snd (Init example_host (Some ''sdk.tar'') NoComponents (Some ''work'') example_state))
     = (Inl (InitError AlreadyInitialized),
        snd (Init example_host (Some ''sdk.tar'') NoComponents (Some ''work'') example_state))"
proof -
  have first: "fst (Init example_host (Some ''sdk.tar'') NoComponents (Some ''work'')
                 example_state) = Inr ()"
    by code_simp
  have active: "os_environ
      (snd (Init example_host (Some ''sdk.tar'') NoComponents (Some ''work'') example_state))
      DRIVER_LOCATION_ENV = Some ''work''"
    by code_simp
  have posix: "\<not> is_windows example_host"
    by (simp add: example_host_def)
  from Init_already_initialized [OF active, of example_host None NoComponents None] posix first
  show ?thesis by simp
qed

section \<open>Results about RunGcloud\<close>

text \<open>
  C9.  Whatever the command, when the raw runner \<open>RunGcloudRawOutput\<close> returns
  \<open>(out, err, code)\<close>, \<open>RunGcloud\<close> returns \<open>None\<close> as its decoded value if \<open>out\<close> is
  empty, and \<open>out\<close> itself, without raising, if \<open>out\<close> is not empty and \<open>json.loads\<close>
  fails on it; in both cases with \<open>err\<close> and \<open>code\<close> as the raw runner returned them.
\<close>

theorem RunGcloud_undecoded:
  assumes "RunGcloudRawOutput h self command (Some (json_format format_keys)) filters
             timeout env s = (Inr (out, err, code), s')"
  shows "(out = [] \<longrightarrow>
            RunGcloud json_loads h self command format_keys filters timeout env s
              = (Inr (NoOutput, err, code), s'))
       \<and> (out \<noteq> [] \<and> json_loads out = None \<longrightarrow>
            RunGcloud json_loads h self command format_keys filters timeout env s
              = (Inr (RawOutput out, err, code), s'))"
  using assms by (simp add: RunGcloud_def Let_def)

theorem RunGcloud_undecoded_witness:
  "RunGcloud (\<lambda>out. None :: unit option) chatty_host example_sdk (CmdString ''help'') []
     None None None example_state
     = (Inr (RawOutput ''Usage: gcloud'', ''warn'', 2), example_state)
 \<and> RunGcloud (\<lambda>out. None :: unit option) example_host example_sdk (CmdString ''help'') []
     None None None example_state
     = (Inr (NoOutput, [], 0), example_state)"
proof -
  have cwd: "isdir (Dir [(''sdk.tar'', File ''installer''), (''work'', Dir [])])
               (dirname (self_sdk_dir example_sdk))"
    by code_simp
  have raw: "RunGcloudRawOutput chatty_host example_sdk (CmdString ''help'')
               (Some (json_format [])) None None None example_state
             = (Inr (''Usage: gcloud'', ''warn'', 2), example_state)"
    by (simp add: RunGcloudRawOutput_def Run_def PrepareCommand_def chatty_host_def
        example_host_def example_state_def json_format_def example_popen_def cwd)
  have quiet: "RunGcloudRawOutput example_host example_sdk (CmdString ''help'')
               (Some (json_format [])) None None None example_state
             = (Inr ([], [], 0), example_state)"
    by (simp add: RunGcloudRawOutput_def Run_def PrepareCommand_def
        example_host_def example_state_def json_format_def example_popen_def cwd)
  from RunGcloud_undecoded [OF raw, of "\<lambda>out. None :: unit option"]
    RunGcloud_undecoded [OF quiet, of "\<lambda>out. None :: unit option"]
  show ?thesis by simp
qed

text \<open>
  C10.  When \<open>Init\<close> is given a root directory that is a directory already, the keep
  marker is set before anything else is done: the call is the installation part of
  \<open>Init\<close> (download, extraction, installer) run on the state with the marker set.  So
  whenever such a call fails, the marker is set in the environment it leaves behind,
  and the driver-location variable is not.
\<close>

theorem Init_keep_marker_survives_failure:
  assumes "\<not> is_windows h" and "os_environ s DRIVER_LOCATION_ENV = None"
    and "isdir (fs s) root_directory"
  shows "Init h tar_location additional_components (Some root_directory) s
           = Init_install h (case tar_location of None \<Rightarrow> RELEASE_TAR | Some l \<Rightarrow> l)
               additional_components root_directory
               (s\<lparr>os_environ := (os_environ s)(DRIVER_KEEP_LOCATION_ENV \<mapsto> ''True'')\<rparr>)
       \<and> (\<forall>e s'. Init h tar_location additional_components (Some root_directory) s
                    = (Inl e, s') \<longrightarrow>
                  os_environ s' DRIVER_KEEP_LOCATION_ENV = Some ''True''
                \<and> os_environ s' DRIVER_LOCATION_ENV = None)"
proof -
  let ?s1 = "s\<lparr>os_environ := (os_environ s)(DRIVER_KEEP_LOCATION_ENV \<mapsto> ''True'')\<rparr>"
  let ?tl = "case tar_location of None \<Rightarrow> RELEASE_TAR | Some l \<Rightarrow> l"
  have names: "DRIVER_KEEP_LOCATION_ENV \<noteq> DRIVER_LOCATION_ENV"
    by (simp add: DRIVER_KEEP_LOCATION_ENV_def DRIVER_LOCATION_ENV_def)
  from assms have eq: "Init h tar_location additional_components (Some root_directory) s
      = Init_install h ?tl additional_components root_directory ?s1"
    by (simp add: Init_def Init_locations_def Let_def)
  have "os_environ s' DRIVER_KEEP_LOCATION_ENV = Some ''True''
      \<and> os_environ s' DRIVER_LOCATION_ENV = None"
    if "Init h tar_location additional_components (Some root_directory) s = (Inl e, s')"
    for e s'
  proof -
    from that eq
    have "Init_install h ?tl additional_components root_directory ?s1 = (Inl e, s')"
      by simp
    from Init_install_environ [OF this] have "os_environ s' = os_environ ?s1" by simp
    with assms(2) names show ?thesis by simp
  qed
  with eq show ?thesis by blast
qed

theorem Init_keep_marker_survives_failure_witness:
  "fst (Init example_host (Some ''http://host/missing.tar'') NoComponents (Some ''work'')
          example_state)
     = Inl (InitError (TarFailure ''downloading'' ''http://host/missing.tar''))
 \<and> os_environ
      (snd (Init example_host (Some ''http://host/missing.tar'') NoComponents (Some ''work'')
              example_state)) DRIVER_KEEP_LOCATION_ENV = Some ''True''
 \<and> os_environ
      (snd (Init example_host (Some ''http://host/missing.tar'') NoComponents (Some ''work'')
              example_state)) DRIVER_LOCATION_ENV = None"
proof -
  let ?run = "Init example_host (Some ''http://host/missing.tar'') NoComponents (Some ''work'')
                example_state"
  have posix: "\<not> is_windows example_host"
    by (simp add: example_host_def)
  have fresh: "os_environ example_state DRIVER_LOCATION_ENV = None"
    by code_simp
  have dir: "isdir (fs example_state) ''work''"
    by code_simp
  have fails: "fst ?run = Inl (InitError (TarFailure ''downloading'' ''http://host/missing.tar''))"
    by code_simp
  then have run: "?run = (Inl (InitError (TarFailure ''downloading'' ''http://host/missing.tar'')),
      snd ?run)"
    by (simp add: prod_eq_iff)
  from Init_keep_marker_survives_failure [OF posix fresh dir,
      of "Some ''http://host/missing.tar''" NoComponents] run fails
  show ?thesis by blast
qed

end
